theory Spec2Isabelle
  imports Main "HOL-Library.Multiset"
begin

section \<open>Python strings\<close>

text \<open>
  A Python \<open>str\<close> is a sequence of Unicode code points. A code point is a natural
  number here and a string a list of them, so that \<open>strip\<close>, \<open>split\<close>, \<open>in\<close>
  and the regular expressions see the same units as the interpreter does (the Cyrillic
  labels of the tool are one code point per letter, not the bytes of an encoding).
  \<open>ascii\<close> turns an ASCII literal into its code points.
\<close>

type_synonym pstr = "nat list"

definition ascii :: "string \<Rightarrow> pstr" where
  "ascii s = map of_char s"

abbreviation NL :: nat where "NL \<equiv> 10"
abbreviation COLON :: nat where "COLON \<equiv> 58"

text \<open>
  \<open>str.isspace\<close> on one code point; \<open>str.strip()\<close> and the class \<open>\s\<close> of \<open>re\<close> (on
  \<open>str\<close> patterns) use the same test.
\<close>

definition isspace :: "nat \<Rightarrow> bool" where
  "isspace c \<longleftrightarrow>
     (9 \<le> c \<and> c \<le> 13) \<or> (28 \<le> c \<and> c \<le> 32) \<or> c = 133 \<or> c = 160 \<or> c = 5760 \<or>
     (8192 \<le> c \<and> c \<le> 8202) \<or> c = 8232 \<or> c = 8233 \<or> c = 8239 \<or> c = 8287 \<or> c = 12288"

text \<open>\<open>s.strip()\<close>: whitespace removed at both ends.\<close>

definition strip :: "pstr \<Rightarrow> pstr" where
  "strip s = rev (dropWhile isspace (rev (dropWhile isspace s)))"

text \<open>\<open>s.split('\n')\<close>: never empty; \<open>''.split('\n') = ['']\<close>.\<close>

fun split_nl :: "pstr \<Rightarrow> pstr list" where
  "split_nl [] = [[]]"
| "split_nl (c # cs) =
     (if c = NL then [] # split_nl cs
      else (case split_nl cs of [] \<Rightarrow> [[c]] | l # ls \<Rightarrow> (c # l) # ls))"

text \<open>\<open>s.startswith(p)\<close> and \<open>sub in s\<close>.\<close>

definition startswith :: "pstr \<Rightarrow> pstr \<Rightarrow> bool" where
  "startswith s p \<longleftrightarrow> take (length p) s = p"

fun contains :: "pstr \<Rightarrow> pstr \<Rightarrow> bool" where
  "contains sub [] \<longleftrightarrow> sub = []"
| "contains sub (c # cs) \<longleftrightarrow> startswith (c # cs) sub \<or> contains sub cs"

section \<open>The two regular expressions\<close>

text \<open>
  \<open>re.search\<close> tries the pattern at every start position from the left and returns the
  first match; inside one attempt a greedy \<open>\s*\<close> takes the longest run of whitespace
  and gives it back one character at a time while the rest of the pattern fails. The
  pieces of a pattern are matchers that take the remaining text and return group 1.

  \<open>(.+)\<close> at the end of a pattern: the longest run of characters other than the newline,
  at least one.
\<close>

definition dot_plus :: "pstr \<Rightarrow> pstr option" where
  "dot_plus s = (let g = takeWhile (\<lambda>c. c \<noteq> NL) s in if g = [] then None else Some g)"

text \<open>\<open>\s*\<close> followed by \<open>k\<close>: \<open>n\<close> whitespace characters taken, then fewer.\<close>

fun star_back :: "(pstr \<Rightarrow> pstr option) \<Rightarrow> nat \<Rightarrow> pstr \<Rightarrow> pstr option" where
  "star_back k 0 s = k s"
| "star_back k (Suc n) s =
     (case k (drop (Suc n) s) of Some g \<Rightarrow> Some g | None \<Rightarrow> star_back k n s)"

definition ws_star :: "(pstr \<Rightarrow> pstr option) \<Rightarrow> pstr \<Rightarrow> pstr option" where
  "ws_star k s = star_back k (length (takeWhile isspace s)) s"

text \<open>A literal text followed by \<open>k\<close>.\<close>

definition lit :: "pstr \<Rightarrow> (pstr \<Rightarrow> pstr option) \<Rightarrow> pstr \<Rightarrow> pstr option" where
  "lit p k s = (if startswith s p then k (drop (length p) s) else None)"

text \<open>\<open>re.search\<close>: the pattern \<open>m\<close> tried at each position, the end of the text included.\<close>

fun re_search :: "(pstr \<Rightarrow> pstr option) \<Rightarrow> pstr \<Rightarrow> pstr option" where
  "re_search m [] = m []"
| "re_search m (c # cs) =
     (case m (c # cs) of Some g \<Rightarrow> Some g | None \<Rightarrow> re_search m cs)"

text \<open>\<open>r':\s*(.+)'\<close>, the pattern of every field of the detail parser.\<close>

definition colon_value :: "pstr \<Rightarrow> pstr option" where
  "colon_value = lit [COLON] (ws_star dot_plus)"

section \<open>Labels of the tool's output\<close>

definition user_profiles_header :: pstr where
  "user_profiles_header =
     [1055, 1088, 1086, 1092, 1080, 1083, 1080, 32,
      1087, 1086, 1083, 1100, 1079, 1086, 1074, 1072, 1090, 1077, 1083, 1077, 1081]"

definition group_policy_header :: pstr where
  "group_policy_header =
     [1055, 1088, 1086, 1092, 1080, 1083, 1080, 32,
      1075, 1088, 1091, 1087, 1087, 1086, 1074, 1086, 1081, 32,
      1087, 1086, 1083, 1080, 1090, 1080, 1082, 1080]"

definition all_user_profiles_label :: pstr where
  "all_user_profiles_label =
     [1042, 1089, 1077, 32, 1087, 1088, 1086, 1092, 1080, 1083, 1080, 32,
      1087, 1086, 1083, 1100, 1079, 1086, 1074, 1072, 1090, 1077, 1083, 1077, 1081]"

definition ru_authentication :: pstr where
  "ru_authentication =
     [1055, 1088, 1086, 1074, 1077, 1088, 1082, 1072, 32,
      1087, 1086, 1076, 1083, 1080, 1085, 1085, 1086, 1089, 1090, 1080]"

definition ru_cipher :: pstr where
  "ru_cipher = [1064, 1080, 1092, 1088]"

definition ru_key_content :: pstr where
  "ru_key_content =
     [1057, 1086, 1076, 1077, 1088, 1078, 1080, 1084, 1086, 1077, 32,
      1082, 1083, 1102, 1095, 1072]"

definition ru_key_type :: pstr where
  "ru_key_type = [1058, 1080, 1087, 32, 1082, 1083, 1102, 1095, 1072]"

definition ru_profile_type :: pstr where
  "ru_profile_type = [1058, 1080, 1087, 32, 1087, 1088, 1086, 1092, 1080, 1083, 1103]"

text \<open>\<open>r'\<dots>\s*:\s*(.+)'\<close> behind the label of one entry of the profile list.\<close>

definition entry_pattern :: "pstr \<Rightarrow> pstr option" where
  "entry_pattern = lit all_user_profiles_label (ws_star (lit [COLON] (ws_star dot_plus)))"

section \<open>Profiles\<close>

record WifiProfile =
  ssid :: pstr
  authentication :: pstr
  encryption :: pstr
  key :: pstr
  key_type :: pstr
  profile_type :: pstr
  last_modified :: pstr

section \<open>The list parser\<close>

text \<open>
  \<open>_parse_profile_list\<close>: the loop over the lines, with the flag
  \<open>in_user_profiles_section\<close> and the names collected so far; \<open>break\<close> returns them.
\<close>

fun scan_list :: "bool \<Rightarrow> pstr list \<Rightarrow> pstr list \<Rightarrow> pstr list" where
  "scan_list in_section acc [] = acc"
| "scan_list in_section acc (raw # rest) =
     (let line = strip raw in
      if startswith line user_profiles_header then scan_list True acc rest
      else if in_section then
        (if line = [] \<or> startswith line group_policy_header then acc
         else (case re_search entry_pattern line of
                 Some g \<Rightarrow> scan_list in_section (acc @ [strip g]) rest
               | None \<Rightarrow> scan_list in_section acc rest))
      else scan_list in_section acc rest)"

definition parse_profile_list :: "pstr \<Rightarrow> pstr list" where
  "parse_profile_list output = scan_list False [] (split_nl output)"

section \<open>The detail parser\<close>

text \<open>
  \<open>_parse_profile_details\<close>: \<open>profile_data\<close> starts at the defaults and one line at a
  time may overwrite one field. The \<open>if\<close>/\<open>elif\<close> chain picks the first label that
  occurs anywhere in the line; a line whose pattern does not match changes nothing.
  Every path of the function ends in \<open>WifiProfile(**profile_data)\<close>, so the result is a
  profile and never \<open>None\<close>.
\<close>

definition defaults :: "pstr \<Rightarrow> WifiProfile" where
  "defaults profile_name =
     \<lparr>ssid = profile_name, authentication = ascii ''Unknown'', encryption = ascii ''Unknown'',
      key = ascii ''Not found'', key_type = ascii ''Unknown'', profile_type = ascii ''Unknown'',
      last_modified = []\<rparr>"

definition detail_line :: "WifiProfile \<Rightarrow> pstr \<Rightarrow> WifiProfile" where
  "detail_line d raw =
     (let line = strip raw in
      if contains (ascii ''Authentication'') line \<or> contains ru_authentication line then
        (case re_search colon_value line of
           Some g \<Rightarrow> d\<lparr>authentication := strip g\<rparr> | None \<Rightarrow> d)
      else if contains (ascii ''Cipher'') line \<or> contains ru_cipher line then
        (case re_search colon_value line of
           Some g \<Rightarrow> d\<lparr>encryption := strip g\<rparr> | None \<Rightarrow> d)
      else if contains (ascii ''Key Content'') line \<or> contains ru_key_content line then
        (case re_search colon_value line of
           Some g \<Rightarrow>
             (let key_content = strip g in
              if key_content \<noteq> [] \<and> key_content \<noteq> ascii ''Absent''
              then d\<lparr>key := key_content\<rparr>
              else d\<lparr>key := ascii ''No password saved''\<rparr>)
         | None \<Rightarrow> d)
      else if contains (ascii ''Key Type'') line \<or> contains ru_key_type line then
        (case re_search colon_value line of
           Some g \<Rightarrow> d\<lparr>key_type := strip g\<rparr> | None \<Rightarrow> d)
      else if contains (ascii ''Profile Type'') line \<or> contains ru_profile_type line then
        (case re_search colon_value line of
           Some g \<Rightarrow> d\<lparr>profile_type := strip g\<rparr> | None \<Rightarrow> d)
      else d)"

definition parse_profile_details :: "pstr \<Rightarrow> pstr \<Rightarrow> WifiProfile" where
  "parse_profile_details output profile_name =
     foldl detail_line (defaults profile_name) (split_nl output)"

section \<open>Objects, the store and the outside world\<close>

text \<open>
  Lists are objects: \<open>self.profiles\<close> and the result of a filter are references, and two
  references may name the same list. The store is the sequence of list objects created
  so far, a reference is an index into it, and a new list gets the next index. The world
  also records the external commands that have been run, what has been printed
  (\<open>print\<close> itself is taken to succeed; a printed list is kept as the list), and the
  files on disk (path to text).
\<close>

type_synonym ref = nat

datatype printed = PText pstr | PList "pstr list"

record world =
  heap :: "WifiProfile list list"
  commands :: "pstr list"
  stdout :: "printed list"
  files :: "pstr \<rightharpoonup> pstr"

record WifiExtractor =
  profiles :: ref
  is_admin :: bool

datatype py_exception =
    PermissionError pstr
  | OSError pstr
  | UnicodeEncodeError pstr
  | KeyboardInterrupt

text \<open>\<open>except Exception\<close> catches every class but the ones that derive from
  \<open>BaseException\<close> alone.\<close>

fun is_Exception :: "py_exception \<Rightarrow> bool" where
  "is_Exception KeyboardInterrupt = False"
| "is_Exception _ = True"

fun exc_str :: "py_exception \<Rightarrow> pstr" where
  "exc_str (PermissionError m) = m"
| "exc_str (OSError m) = m"
| "exc_str (UnicodeEncodeError m) = m"
| "exc_str KeyboardInterrupt = []"

definition alloc :: "world \<Rightarrow> WifiProfile list \<Rightarrow> ref \<times> world" where
  "alloc w xs = (length (heap w), w\<lparr>heap := heap w @ [xs]\<rparr>)"

definition list_append :: "world \<Rightarrow> ref \<Rightarrow> WifiProfile \<Rightarrow> world" where
  "list_append w r p = w\<lparr>heap := (heap w)[r := heap w ! r @ [p]]\<rparr>"

text \<open>
  \<open>_run_command\<close> returns a text whatever happens (the output, or a text that starts
  with \<open>Error:\<close> or \<open>Exception:\<close>). The shell \<open>sh\<close> gives that text for a command, given
  the commands run before it.
\<close>

definition run_command :: "(pstr list \<Rightarrow> pstr \<Rightarrow> pstr) \<Rightarrow> world \<Rightarrow> pstr \<Rightarrow> pstr \<times> world" where
  "run_command sh w command = (sh (commands w) command, w\<lparr>commands := commands w @ [command]\<rparr>)"

section \<open>Extraction\<close>

definition admin_message :: pstr where
  "admin_message =
     [1053, 1077, 1086, 1073, 1093, 1086, 1076, 1080, 1084, 1099, 32, 1087, 1088, 1072, 1074,
      1072, 32, 1072, 1076, 1084, 1080, 1085, 1080, 1089, 1090, 1088, 1072, 1090, 1086, 1088,
      1072, 32, 1076, 1083, 1103, 32, 1076, 1086, 1089, 1090, 1091, 1087, 1072, 32, 1082, 32,
      87, 105, 45, 70, 105, 32, 1087, 1088, 1086, 1092, 1080, 1083, 1103, 1084]"

definition details_command :: "pstr \<Rightarrow> pstr" where
  "details_command profile_name =
     ascii ''netsh wlan show profile name='' @ [34] @ profile_name @ [34] @ ascii '' key=clear''"

text \<open>One round of the loop of \<open>extract_profiles\<close>; a profile object is always true,
  so it is always appended.\<close>

definition extract_one :: "(pstr list \<Rightarrow> pstr \<Rightarrow> pstr) \<Rightarrow> ref \<Rightarrow> world \<Rightarrow> pstr \<Rightarrow> world" where
  "extract_one sh r w profile_name =
     (let (details_output, w1) = run_command sh w (details_command profile_name);
          profile = parse_profile_details details_output profile_name
      in list_append w1 r profile)"

definition extract_profiles ::
  "(pstr list \<Rightarrow> pstr \<Rightarrow> pstr) \<Rightarrow> WifiExtractor \<Rightarrow> world \<Rightarrow>
     (py_exception + ref) \<times> WifiExtractor \<times> world" where
  "extract_profiles sh self w =
     (if \<not> is_admin self then (Inl (PermissionError admin_message), self, w)
      else
        (let (profiles_output, w1) = run_command sh w (ascii ''netsh wlan show profiles'');
             profile_names = parse_profile_list profiles_output;
             w2 = w1\<lparr>stdout := stdout w1 @ [PList profile_names]\<rparr>;
             (r, w3) = alloc w2 [];
             self' = self\<lparr>profiles := r\<rparr>;
             w4 = foldl (extract_one sh r) w3 profile_names
         in (Inr r, self', w4)))"

section \<open>Filtering\<close>

text \<open>
  \<open>filter_profiles\<close>. \<open>filtered\<close> starts as the reference \<open>self.profiles\<close>; each list
  comprehension that runs creates a new list. \<open>has_password\<close> is \<open>None\<close>, \<open>True\<close> or
  \<open>False\<close>; \<open>if ssid_filter:\<close> is false for \<open>None\<close> and for the empty text.
  \<open>lower\<close> is \<open>str.lower\<close>, the lower-casing of the interpreter's Unicode tables.
\<close>

definition filter_profiles ::
  "(pstr \<Rightarrow> pstr) \<Rightarrow> WifiExtractor \<Rightarrow> world \<Rightarrow> bool option \<Rightarrow> pstr option \<Rightarrow> ref \<times> world" where
  "filter_profiles lower self w has_password ssid_filter =
     (let filtered = profiles self;
          (filtered, w) =
            (case has_password of
               None \<Rightarrow> (filtered, w)
             | Some True \<Rightarrow>
                 alloc w (filter (\<lambda>p. key p \<noteq> [] \<and> key p \<noteq> ascii ''No password saved''
                                        \<and> key p \<noteq> ascii ''Not found'') (heap w ! filtered))
             | Some False \<Rightarrow>
                 alloc w (filter (\<lambda>p. key p = [] \<or> key p = ascii ''No password saved''
                                        \<or> key p = ascii ''Not found'') (heap w ! filtered)))
      in (case ssid_filter of
            None \<Rightarrow> (filtered, w)
          | Some f \<Rightarrow>
              if f \<noteq> []
              then alloc w (filter (\<lambda>p. contains (lower f) (lower (ssid p))) (heap w ! filtered))
              else (filtered, w)))"

section \<open>Statistics\<close>

record stats =
  total_profiles :: int
  with_password :: int
  without_password :: int
  authentication_types :: "pstr \<rightharpoonup> int"

definition count_auth :: "(pstr \<rightharpoonup> int) \<Rightarrow> WifiProfile \<Rightarrow> (pstr \<rightharpoonup> int)" where
  "count_auth auth_types profile =
     (let auth_type = authentication profile
      in auth_types(auth_type \<mapsto> (case auth_types auth_type of None \<Rightarrow> 0 | Some n \<Rightarrow> n) + 1))"

definition get_stats :: "WifiExtractor \<Rightarrow> world \<Rightarrow> stats" where
  "get_stats self w =
     (let total = int (length (heap w ! profiles self));
          with_pw = int (length (filter (\<lambda>p. key p \<noteq> [] \<and> key p \<noteq> ascii ''No password saved''
                                              \<and> key p \<noteq> ascii ''Not found'') (heap w ! profiles self)));
          without_pw = total - with_pw;
          auth_types = foldl count_auth Map.empty (heap w ! profiles self)
      in \<lparr>total_profiles = total, with_password = with_pw, without_password = without_pw,
          authentication_types = auth_types\<rparr>)"

section \<open>Export\<close>

text \<open>
  Writing a file is the business of the operating system: \<open>disk\<close> says, for the files
  present, a path and the text to write, whether \<open>open\<close> and the writes go through or
  which exception they raise, and what is then left at the path (nothing, or some text).
  A file is the text that reading it back in the same mode and encoding gives.
\<close>

datatype io_outcome = Written | Failed py_exception "pstr option"

definition write_file ::
  "((pstr \<rightharpoonup> pstr) \<Rightarrow> pstr \<Rightarrow> pstr \<Rightarrow> io_outcome) \<Rightarrow> world \<Rightarrow> pstr \<Rightarrow> pstr \<Rightarrow>
     py_exception option \<times> world" where
  "write_file disk w filename content =
     (case disk (files w) filename content of
        Written \<Rightarrow> (None, w\<lparr>files := (files w)(filename \<mapsto> content)\<rparr>)
      | Failed e left \<Rightarrow> (Some e, w\<lparr>files := (files w)(filename := left)\<rparr>))"

text \<open>
  \<open>try: \<dots> return True  except Exception as e: print(f"\<dots>{e}"); return False\<close> around
  the writing: an exception that \<open>except Exception\<close> does not catch goes on to the caller.
\<close>

definition try_export ::
  "pstr \<Rightarrow> py_exception option \<times> world \<Rightarrow> (py_exception + bool) \<times> world" where
  "try_export label r =
     (case r of
        (None, w) \<Rightarrow> (Inr True, w)
      | (Some e, w) \<Rightarrow>
          if is_Exception e
          then (Inr False, w\<lparr>stdout := stdout w @ [PText (label @ exc_str e)]\<rparr>)
          else (Inl e, w))"

text \<open>\<open>str(n)\<close> for a count or an index.\<close>

fun str_nat :: "nat \<Rightarrow> pstr" where
  "str_nat n = (if n < 10 then [48 + n] else str_nat (n div 10) @ [48 + n mod 10])"

definition str_int :: "int \<Rightarrow> pstr" where
  "str_int i = (if i < 0 then 45 # str_nat (nat (- i)) else str_nat (nat i))"

text \<open>The \<open>profiles\<close> argument: \<open>None\<close> stands for \<open>self.profiles\<close>.\<close>

definition profiles_arg :: "WifiExtractor \<Rightarrow> world \<Rightarrow> ref option \<Rightarrow> WifiProfile list" where
  "profiles_arg self w arg = heap w ! (case arg of None \<Rightarrow> profiles self | Some r \<Rightarrow> r)"

definition txt_block :: "nat \<times> WifiProfile \<Rightarrow> pstr" where
  "txt_block ip =
     (case ip of (i, profile) \<Rightarrow>
        ascii ''Profile #'' @ str_nat i @ [NL] @
        ascii ''SSID: '' @ ssid profile @ [NL] @
        ascii ''Authentication: '' @ authentication profile @ [NL] @
        ascii ''Encryption: '' @ encryption profile @ [NL] @
        ascii ''Key: '' @ key profile @ [NL] @
        ascii ''Key Type: '' @ key_type profile @ [NL] @
        ascii ''Profile Type: '' @ profile_type profile @ [NL] @
        replicate 40 45 @ [NL, NL])"

text \<open>\<open>now\<close> is the text of \<open>datetime.now()\<close> in the format the export asks for.\<close>

definition txt_content :: "pstr \<Rightarrow> WifiProfile list \<Rightarrow> pstr" where
  "txt_content now ps =
     ascii ''=== Wi-Fi Profile Extractor Results ==='' @ [NL] @
     ascii ''Generated: '' @ now @ [NL] @
     ascii ''Total profiles: '' @ str_nat (length ps) @ [NL, NL] @
     concat (map txt_block (List.enumerate 1 ps))"

definition export_to_txt ::
  "((pstr \<rightharpoonup> pstr) \<Rightarrow> pstr \<Rightarrow> pstr \<Rightarrow> io_outcome) \<Rightarrow> pstr \<Rightarrow> WifiExtractor \<Rightarrow> world \<Rightarrow>
     pstr \<Rightarrow> ref option \<Rightarrow> (py_exception + bool) \<times> world" where
  "export_to_txt disk now self w filename arg =
     (let ps = profiles_arg self w arg
      in try_export (ascii ''Error saving to TXT: '')
           (write_file disk w filename (txt_content now ps)))"

text \<open>
  \<open>csv_row\<close> is the text \<open>csv.DictWriter\<close> writes for one row of six fields (its
  quoting and line end are those of the \<open>csv\<close> module's default dialect).
\<close>

definition csv_content :: "(pstr list \<Rightarrow> pstr) \<Rightarrow> WifiProfile list \<Rightarrow> pstr" where
  "csv_content csv_row ps =
     csv_row [ascii ''SSID'', ascii ''Authentication'', ascii ''Encryption'', ascii ''Key'',
              ascii ''Key Type'', ascii ''Profile Type''] @
     concat (map (\<lambda>profile. csv_row [ssid profile, authentication profile, encryption profile,
                                      key profile, key_type profile, profile_type profile]) ps)"

definition export_to_csv ::
  "((pstr \<rightharpoonup> pstr) \<Rightarrow> pstr \<Rightarrow> pstr \<Rightarrow> io_outcome) \<Rightarrow> (pstr list \<Rightarrow> pstr) \<Rightarrow> WifiExtractor \<Rightarrow>
     world \<Rightarrow> pstr \<Rightarrow> ref option \<Rightarrow> (py_exception + bool) \<times> world" where
  "export_to_csv disk csv_row self w filename arg =
     (let ps = profiles_arg self w arg
      in try_export (ascii ''Error saving to CSV: '')
           (write_file disk w filename (csv_content csv_row ps)))"

section \<open>JSON\<close>

datatype json = JStr pstr | JInt int | JArr "json list" | JObj "(pstr \<times> json) list"

definition to_dict :: "WifiProfile \<Rightarrow> json" where
  "to_dict p =
     JObj [(ascii ''ssid'', JStr (ssid p)),
           (ascii ''authentication'', JStr (authentication p)),
           (ascii ''encryption'', JStr (encryption p)),
           (ascii ''key'', JStr (key p)),
           (ascii ''key_type'', JStr (key_type p)),
           (ascii ''profile_type'', JStr (profile_type p)),
           (ascii ''last_modified'', JStr (last_modified p))]"

text \<open>
  \<open>json.dump(data, f, indent=2, ensure_ascii=False)\<close>. In a string the quote, the
  backslash and the control characters below 32 are escaped and every other code point
  is written as it is.
\<close>

definition hex_digit :: "nat \<Rightarrow> nat" where
  "hex_digit d = (if d < 10 then 48 + d else 87 + d)"

definition escape_char :: "nat \<Rightarrow> pstr" where
  "escape_char c =
     (if c = 34 then [92, 34]
      else if c = 92 then [92, 92]
      else if c = 10 then [92, 110]
      else if c = 13 then [92, 114]
      else if c = 9 then [92, 116]
      else if c = 8 then [92, 98]
      else if c = 12 then [92, 102]
      else if c < 32 then [92, 117, 48, 48, hex_digit (c div 16), hex_digit (c mod 16)]
      else [c])"

definition encode_str :: "pstr \<Rightarrow> pstr" where
  "encode_str s = 34 # concat (map escape_char s) @ [34]"

definition newline_indent :: "nat \<Rightarrow> pstr" where
  "newline_indent level = NL # replicate (2 * level) 32"

fun join :: "pstr \<Rightarrow> pstr list \<Rightarrow> pstr" where
  "join sep [] = []"
| "join sep [x] = x"
| "join sep (x # y # ys) = x @ sep @ join sep (y # ys)"

fun dumps :: "nat \<Rightarrow> json \<Rightarrow> pstr" where
  "dumps level (JStr s) = encode_str s"
| "dumps level (JInt i) = str_int i"
| "dumps level (JArr vs) =
     (if vs = [] then [91, 93]
      else [91] @ newline_indent (Suc level) @
           join (44 # newline_indent (Suc level)) (map (dumps (Suc level)) vs) @
           newline_indent level @ [93])"
| "dumps level (JObj kvs) =
     (if kvs = [] then [123, 125]
      else [123] @ newline_indent (Suc level) @
           join (44 # newline_indent (Suc level))
             (map (\<lambda>kv. encode_str (fst kv) @ [58, 32] @ dumps (Suc level) (snd kv)) kvs) @
           newline_indent level @ [125])"

definition json_document :: "pstr \<Rightarrow> WifiProfile list \<Rightarrow> json" where
  "json_document now ps =
     JObj [(ascii ''generated'', JStr now),
           (ascii ''total_profiles'', JInt (int (length ps))),
           (ascii ''profiles'', JArr (map to_dict ps))]"

definition export_to_json ::
  "((pstr \<rightharpoonup> pstr) \<Rightarrow> pstr \<Rightarrow> pstr \<Rightarrow> io_outcome) \<Rightarrow> pstr \<Rightarrow> WifiExtractor \<Rightarrow> world \<Rightarrow>
     pstr \<Rightarrow> ref option \<Rightarrow> (py_exception + bool) \<times> world" where
  "export_to_json disk now self w filename arg =
     (let ps = profiles_arg self w arg;
          data = json_document now ps
      in try_export (ascii ''Error saving to JSON: '')
           (write_file disk w filename (dumps 0 data)))"

section \<open>Reading a JSON document back\<close>

text \<open>
  A reader for the documents of the export, after \<open>json.load\<close>: objects, arrays,
  strings and integers, with the whitespace and the escapes of JSON. An object is read
  as its members in order. The literals \<open>true\<close>, \<open>false\<close>, \<open>null\<close> and numbers with a
  fraction or an exponent, which the export never writes, are not read (\<open>None\<close>, as for
  a malformed text).
\<close>

definition json_ws :: "nat \<Rightarrow> bool" where
  "json_ws c \<longleftrightarrow> c = 32 \<or> c = 9 \<or> c = 10 \<or> c = 13"

definition skip_ws :: "pstr \<Rightarrow> pstr" where
  "skip_ws s = dropWhile json_ws s"

definition is_digit :: "nat \<Rightarrow> bool" where
  "is_digit c \<longleftrightarrow> 48 \<le> c \<and> c \<le> 57"

definition hex_val :: "nat \<Rightarrow> nat option" where
  "hex_val c =
     (if 48 \<le> c \<and> c \<le> 57 then Some (c - 48)
      else if 97 \<le> c \<and> c \<le> 102 then Some (c - 87)
      else if 65 \<le> c \<and> c \<le> 70 then Some (c - 55)
      else None)"

text \<open>The four hexadecimal digits of a \<open>\u\<close> escape.\<close>

definition hex4 :: "pstr \<Rightarrow> nat option" where
  "hex4 s =
     (case map hex_val s of
        [Some a, Some b, Some c, Some d] \<Rightarrow> Some (((a * 16 + b) * 16 + c) * 16 + d)
      | _ \<Rightarrow> None)"

definition unescape :: "nat \<Rightarrow> nat option" where
  "unescape e =
     (if e = 34 then Some 34
      else if e = 92 then Some 92
      else if e = 47 then Some 47
      else if e = 98 then Some 8
      else if e = 102 then Some 12
      else if e = 110 then Some 10
      else if e = 114 then Some 13
      else if e = 116 then Some 9
      else None)"

definition cons_fst :: "'a \<Rightarrow> ('a list \<times> 'b) option \<Rightarrow> ('a list \<times> 'b) option" where
  "cons_fst x r = map_option (\<lambda>(xs, rest). (x # xs, rest)) r"

text \<open>
  The text of a string after its opening quote, up to the closing quote. A \<open>\u\<close> escape
  of a high surrogate directly followed by one of a low surrogate is one code point.
\<close>

function scan_string :: "pstr \<Rightarrow> (pstr \<times> pstr) option" where
  "scan_string [] = None"
| "scan_string (c # cs) =
     (if c = 34 then Some ([], cs)
      else if c = 92 then
        (case cs of
           [] \<Rightarrow> None
         | e # r \<Rightarrow>
             if e = 117 then
               (case hex4 (take 4 r) of
                  None \<Rightarrow> None
                | Some n \<Rightarrow>
                    if 55296 \<le> n \<and> n \<le> 56319 \<and> take 2 (drop 4 r) = [92, 117] then
                      (case hex4 (take 4 (drop 6 r)) of
                         None \<Rightarrow> None
                       | Some m \<Rightarrow>
                           if 56320 \<le> m \<and> m \<le> 57343
                           then cons_fst (65536 + ((n - 55296) * 1024 + (m - 56320)))
                                  (scan_string (drop 10 r))
                           else cons_fst n (scan_string (drop 4 r)))
                    else cons_fst n (scan_string (drop 4 r)))
             else (case unescape e of
                     None \<Rightarrow> None
                   | Some d \<Rightarrow> cons_fst d (scan_string r)))
      else if c < 32 then None
      else cons_fst c (scan_string cs))"
  by pat_completeness auto
termination
  by (relation "measure length") auto

definition digits_val :: "pstr \<Rightarrow> nat" where
  "digits_val ds = foldl (\<lambda>a d. 10 * a + (d - 48)) 0 ds"

text \<open>
  An integer: an optional minus sign, then \<open>0\<close> or a run of digits that does not start
  with \<open>0\<close>. A \<open>.\<close>, \<open>e\<close> or \<open>E\<close> behind it belongs to a number that is not an integer.
\<close>

definition scan_digits :: "pstr \<Rightarrow> (nat \<times> pstr) option" where
  "scan_digits s =
     (case s of
        [] \<Rightarrow> None
      | d # r \<Rightarrow>
          if d = 48 then Some (0, r)
          else if is_digit d then Some (digits_val (takeWhile is_digit s), dropWhile is_digit s)
          else None)"

definition scan_int :: "pstr \<Rightarrow> (int \<times> pstr) option" where
  "scan_int s =
     (let neg = (take 1 s = [45]) in
      case scan_digits (if neg then drop 1 s else s) of
        None \<Rightarrow> None
      | Some (n, rest) \<Rightarrow>
          if take 1 rest = [46] \<or> take 1 rest = [101] \<or> take 1 rest = [69] then None
          else Some (if neg then - int n else int n, rest))"

text \<open>
  The value that starts at the head of the text, with the rest of the text. The first
  argument bounds the depth of the calls; \<open>json_loads\<close> gives more than the text is long.
  \<open>parse_array\<close> and \<open>parse_object\<close> start at the first element or member of a bracket
  that is not empty.
\<close>

fun parse_value :: "nat \<Rightarrow> pstr \<Rightarrow> (json \<times> pstr) option"
  and parse_array :: "nat \<Rightarrow> pstr \<Rightarrow> (json list \<times> pstr) option"
  and parse_object :: "nat \<Rightarrow> pstr \<Rightarrow> ((pstr \<times> json) list \<times> pstr) option" where
  "parse_value 0 s = None"
| "parse_value (Suc n) s =
     (case s of
        [] \<Rightarrow> None
      | c # cs \<Rightarrow>
          if c = 34 then map_option (\<lambda>(x, rest). (JStr x, rest)) (scan_string cs)
          else if c = 91 then
            (if take 1 (skip_ws cs) = [93] then Some (JArr [], drop 1 (skip_ws cs))
             else map_option (\<lambda>(x, rest). (JArr x, rest)) (parse_array n (skip_ws cs)))
          else if c = 123 then
            (if take 1 (skip_ws cs) = [125] then Some (JObj [], drop 1 (skip_ws cs))
             else map_option (\<lambda>(x, rest). (JObj x, rest)) (parse_object n (skip_ws cs)))
          else if c = 45 \<or> is_digit c then map_option (\<lambda>(x, rest). (JInt x, rest)) (scan_int s)
          else None)"
| "parse_array 0 s = None"
| "parse_array (Suc n) s =
     (case parse_value n s of
        None \<Rightarrow> None
      | Some (v, r) \<Rightarrow>
          (case skip_ws r of
             [] \<Rightarrow> None
           | d # r' \<Rightarrow>
               if d = 93 then Some ([v], r')
               else if d = 44 then cons_fst v (parse_array n (skip_ws r'))
               else None))"
| "parse_object 0 s = None"
| "parse_object (Suc n) s =
     (case s of
        [] \<Rightarrow> None
      | q # cs \<Rightarrow>
          if q \<noteq> 34 then None
          else
            (case scan_string cs of
               None \<Rightarrow> None
             | Some (k, r) \<Rightarrow>
                 (case skip_ws r of
                    [] \<Rightarrow> None
                  | colon # r1 \<Rightarrow>
                      if colon \<noteq> COLON then None
                      else
                        (case parse_value n (skip_ws r1) of
                           None \<Rightarrow> None
                         | Some (v, r2) \<Rightarrow>
                             (case skip_ws r2 of
                                [] \<Rightarrow> None
                              | d # r3 \<Rightarrow>
                                  if d = 125 then Some ([(k, v)], r3)
                                  else if d = 44 then cons_fst (k, v) (parse_object n (skip_ws r3))
                                  else None)))))"

definition json_loads :: "pstr \<Rightarrow> json option" where
  "json_loads s =
     (case parse_value (Suc (length s)) (skip_ws s) of
        None \<Rightarrow> None
      | Some (v, rest) \<Rightarrow> if skip_ws rest = [] then Some v else None)"

section \<open>Notions of the specification\<close>




text \<open>The lines that open and close the section of the user profiles.\<close>

definition is_header :: "pstr \<Rightarrow> bool" where
  "is_header raw \<longleftrightarrow> startswith (strip raw) user_profiles_header"

definition ends_section :: "pstr \<Rightarrow> bool" where
  "ends_section raw \<longleftrightarrow> strip raw = [] \<or> startswith (strip raw) group_policy_header"

text \<open>The name that a line inside the section contributes, if it is an entry.\<close>

definition entry_name :: "pstr \<Rightarrow> pstr option" where
  "entry_name raw =
     (if is_header raw then None else map_option strip (re_search entry_pattern (strip raw)))"

text \<open>The list that a call returns: the object its reference names in the store it leaves.\<close>

definition returned :: "ref \<times> world \<Rightarrow> WifiProfile list" where
  "returned rw = heap (snd rw) ! fst rw"

text \<open>Lower-casing of the letters A to Z, where \<open>str.lower\<close> is needed on ASCII text.\<close>

definition ascii_lower :: "pstr \<Rightarrow> pstr" where
  "ascii_lower s = map (\<lambda>c. if 65 \<le> c \<and> c \<le> 90 then c + 32 else c) s"

text \<open>The six displayable fields of a profile, and of an object of a document.\<close>

definition displayable :: "WifiProfile \<Rightarrow> pstr \<times> pstr \<times> pstr \<times> pstr \<times> pstr \<times> pstr" where
  "displayable p = (ssid p, authentication p, encryption p, key p, key_type p, profile_type p)"

fun member :: "json \<Rightarrow> pstr \<Rightarrow> json option" where
  "member (JObj kvs) k = map_of kvs k"
| "member _ k = None"

definition read_displayable ::
  "json \<Rightarrow> (pstr \<times> pstr \<times> pstr \<times> pstr \<times> pstr \<times> pstr) option" where
  "read_displayable obj =
     (case (member obj (ascii ''ssid''), member obj (ascii ''authentication''),
            member obj (ascii ''encryption''), member obj (ascii ''key''),
            member obj (ascii ''key_type''), member obj (ascii ''profile_type'')) of
        (Some (JStr a), Some (JStr b), Some (JStr c), Some (JStr d), Some (JStr e), Some (JStr f)) \<Rightarrow>
          Some (a, b, c, d, e, f)
      | _ \<Rightarrow> None)"

text \<open>A profile without a password: the key is empty or one of the two sentinels.\<close>

definition no_password :: "WifiProfile \<Rightarrow> bool" where
  "no_password p \<longleftrightarrow>
     key p = [] \<or> key p = ascii ''No password saved'' \<or> key p = ascii ''Not found''"

text \<open>The list that the password stage of the filter works out.\<close>

definition password_stage :: "WifiExtractor \<Rightarrow> world \<Rightarrow> bool option \<Rightarrow> WifiProfile list" where
  "password_stage self w hp =
     (case hp of None \<Rightarrow> heap w ! profiles self
      | Some b \<Rightarrow> filter (\<lambda>p. no_password p \<noteq> b) (heap w ! profiles self))"

text \<open>
  What follows a value in a document of the export: nothing, a comma or a line break.
  A value reads back when the reader, given at least as many steps as the text of the
  value is long, returns it from that text at any indentation, and leaves what follows.
\<close>

definition after_number :: "pstr \<Rightarrow> bool" where
  "after_number rest \<longleftrightarrow> rest = [] \<or> hd rest = 44 \<or> hd rest = NL"

definition reads_back :: "json \<Rightarrow> bool" where
  "reads_back v \<longleftrightarrow>
     (\<forall>l n rest. length (dumps l v) \<le> n \<longrightarrow> after_number rest \<longrightarrow>
        parse_value n (dumps l v @ rest) = Some (v, rest))"

section \<open>Sample inputs\<close>

text \<open>
  An output of the list command: the group-policy section, the section of the user
  profiles with its rule line and two entries, a blank line, and a line behind it.
\<close>

definition sample_pre :: "pstr list" where
  "sample_pre = [group_policy_header @ ascii '' (read only)'', ascii ''-----'', ascii ''    <None>'', []]"

definition sample_body :: "pstr list" where
  "sample_body =
     [ascii ''---------------------'',
      ascii ''    '' @ all_user_profiles_label @ ascii ''     : Home Net'',
      ascii ''    '' @ all_user_profiles_label @ ascii '' : Cafe '']"

definition sample_rest :: "pstr list" where
  "sample_rest = [[], all_user_profiles_label @ ascii '' : Elsewhere'']"

definition sample_list_output :: pstr where
  "sample_list_output =
     join [NL] (sample_pre @ user_profiles_header # sample_body @ sample_rest)"

text \<open>An extractor with three stored profiles, and a world with nothing else in it.\<close>

definition sample_profiles :: "WifiProfile list" where
  "sample_profiles =
     [(defaults (ascii ''My-Home-Net''))\<lparr>key := ascii ''hunter2''\<rparr>,
      (defaults (ascii ''Cafe''))\<lparr>key := ascii ''No password saved''\<rparr>,
      defaults (ascii ''Office'')]"

definition sample_self :: WifiExtractor where
  "sample_self = \<lparr>profiles = 0, is_admin = False\<rparr>"

definition sample_world :: world where
  "sample_world = \<lparr>heap = [sample_profiles], commands = [], stdout = [], files = Map.empty\<rparr>"

text \<open>A disk that refuses every write, one that accepts every write, and a row writer.\<close>

definition read_only_disk :: "(pstr \<rightharpoonup> pstr) \<Rightarrow> pstr \<Rightarrow> pstr \<Rightarrow> io_outcome" where
  "read_only_disk fs filename content = Failed (PermissionError (ascii ''Permission denied'')) None"

definition good_disk :: "(pstr \<rightharpoonup> pstr) \<Rightarrow> pstr \<Rightarrow> pstr \<Rightarrow> io_outcome" where
  "good_disk fs filename content = Written"

definition plain_row :: "pstr list \<Rightarrow> pstr" where
  "plain_row cells = join [44] cells @ [13, NL]"

section \<open>Strings and the field pattern\<close>

lemma COLON_not_space: "\<not> isspace COLON"
  by (simp add: isspace_def)







lemma strip_fixed:
  assumes "xs \<noteq> []" "\<not> isspace (hd xs)" "\<not> isspace (last xs)"
  shows "strip xs = xs"
proof -
  from assms have a: "dropWhile isspace xs = xs"
    by (simp add: dropWhile_eq_self_iff)
  from assms have "\<not> isspace (hd (rev xs))" by (simp add: hd_rev)
  then have "dropWhile isspace (rev xs) = rev xs"
    by (simp add: dropWhile_eq_self_iff)
  with a show ?thesis by (simp add: strip_def)
qed

lemma strip_dropWhile: "strip (dropWhile isspace xs) = strip xs"
  by (simp add: strip_def)


lemma star_back_first: "k (drop n s) = Some g \<Longrightarrow> star_back k n s = Some g"
  by (cases n) auto

lemma ws_star_first: "k (dropWhile isspace s) = Some g \<Longrightarrow> ws_star k s = Some g"
  unfolding ws_star_def by (rule star_back_first) (simp add: dropWhile_eq_drop)

lemma dot_plus_all:
  assumes "NL \<notin> set s" "s \<noteq> []"
  shows "dot_plus s = Some s"
proof -
  from assms(1) have tw: "takeWhile (\<lambda>c. c \<noteq> NL) s = s"
    by (auto simp: takeWhile_eq_all_conv)
  show ?thesis unfolding dot_plus_def Let_def tw using assms(2) by simp
qed













section \<open>The key field of the detail parser\<close>








section \<open>The section of the user profiles\<close>

lemma startswith_iff: "startswith s p \<longleftrightarrow> (\<exists>r. s = p @ r)"
  unfolding startswith_def by (metis append_take_drop_id append_eq_conv_conj)

lemma ends_not_header: "ends_section raw \<Longrightarrow> \<not> is_header raw"
  unfolding ends_section_def is_header_def startswith_iff user_profiles_header_def
    group_policy_header_def
  by auto

lemma scan_before_header:
  "\<forall>l \<in> set pre. \<not> is_header l \<Longrightarrow> scan_list False acc (pre @ rest) = scan_list False acc rest"
  by (induction pre) (simp_all add: is_header_def)

lemma scan_no_header: "\<forall>l \<in> set ls. \<not> is_header l \<Longrightarrow> scan_list False acc ls = acc"
  using scan_before_header [of ls acc "[]"] by simp

lemma scan_header: "is_header h \<Longrightarrow> scan_list b acc (h # rest) = scan_list True acc rest"
  by (simp add: is_header_def)

lemma scan_body:
  "\<forall>l \<in> set body. \<not> ends_section l \<Longrightarrow>
   scan_list True acc (body @ rest) = scan_list True (acc @ List.map_filter entry_name body) rest"
proof (induction body arbitrary: acc)
  case Nil
  then show ?case by (simp add: List.map_filter_simps)
next
  case (Cons l body)
  then show ?case
    by (cases "re_search entry_pattern (strip l)")
       (auto simp: List.map_filter_simps entry_name_def is_header_def ends_section_def Let_def)
qed

lemma scan_end: "rest = [] \<or> ends_section (hd rest) \<Longrightarrow> scan_list True acc rest = acc"
proof (cases rest)
  case Nil
  then show ?thesis by simp
next
  case (Cons t ts)
  assume "rest = [] \<or> ends_section (hd rest)"
  with Cons have e: "ends_section t" by simp
  then have "\<not> is_header t" by (rule ends_not_header)
  with e Cons show ?thesis
    by (auto simp: is_header_def ends_section_def Let_def)
qed

lemma entry_shape:
  assumes ws: "\<forall>c \<in> set ws0 \<union> set ws1 \<union> set ws2. isspace c"
    and name: "name \<noteq> []" "\<not> isspace (hd name)" "\<not> isspace (last name)" "NL \<notin> set name"
  shows "entry_name (ws0 @ all_user_profiles_label @ ws1 @ COLON # ws2 @ name) = Some name"
proof -
  let ?line = "all_user_profiles_label @ ws1 @ COLON # ws2 @ name"
  have hd_label: "\<not> isspace (hd ?line)" by (simp add: all_user_profiles_label_def isspace_def)
  have "dropWhile isspace (ws0 @ ?line) = dropWhile isspace ?line"
    using ws by (simp add: dropWhile_append)
  also have "\<dots> = ?line" using hd_label by (simp add: dropWhile_eq_self_iff)
  finally have "strip (ws0 @ ?line) = strip ?line" using strip_dropWhile by metis
  also have "\<dots> = ?line"
    using hd_label name by (intro strip_fixed) auto
  finally have s: "strip (ws0 @ ?line) = ?line" .
  have nh: "\<not> startswith ?line user_profiles_header"
    by (simp add: startswith_def all_user_profiles_label_def user_profiles_header_def)
  have "dropWhile isspace (ws2 @ name) = name"
    using ws name by (simp add: dropWhile_append dropWhile_eq_self_iff)
  moreover have "dot_plus name = Some name" using name by (simp add: dot_plus_all)
  ultimately have "ws_star dot_plus (ws2 @ name) = Some name"
    by (intro ws_star_first) simp
  then have "lit [COLON] (ws_star dot_plus) (COLON # ws2 @ name) = Some name"
    by (simp add: lit_def startswith_def)
  moreover have "dropWhile isspace (ws1 @ COLON # ws2 @ name) = COLON # ws2 @ name"
    using ws by (simp add: dropWhile_append COLON_not_space)
  ultimately have "ws_star (lit [COLON] (ws_star dot_plus)) (ws1 @ COLON # ws2 @ name) = Some name"
    by (intro ws_star_first) simp
  then have "entry_pattern ?line = Some name"
    by (simp add: entry_pattern_def lit_def startswith_def)
  then have "re_search entry_pattern ?line = Some name"
    by (cases ?line) auto
  moreover have "strip name = name" using name by (simp add: strip_fixed)
  ultimately show ?thesis using s nh by (simp add: entry_name_def is_header_def)
qed

lemmas list_eval =
  parse_profile_list_def entry_name_def is_header_def ends_section_def entry_pattern_def
  lit_def ws_star_def dot_plus_def startswith_def strip_def isspace_def ascii_def
  user_profiles_header_def group_policy_header_def all_user_profiles_label_def
  sample_pre_def sample_body_def sample_rest_def sample_list_output_def

text \<open>
  C3. If the lines of the output are some lines without the header of the user
  profiles, then a header line, then lines none of which is blank or a group-policy
  header, and then either nothing or a line that is blank or a group-policy header with
  anything behind it, the list parser returns the names of the entries between the
  header and that line, trimmed and in order, and nothing from the lines before or
  after. An entry is a line on which the pattern of the label matches; a line made of
  the label, a colon and a trimmed name, with whitespace around them, is an entry with
  that name. If no line is a header, the parser returns the empty list.
\<close>

theorem profile_list_section:
  "(split_nl out = pre @ h # body @ rest \<and> (\<forall>l \<in> set pre. \<not> is_header l) \<and> is_header h \<and>
    (\<forall>l \<in> set body. \<not> ends_section l) \<and> (rest = [] \<or> ends_section (hd rest)) \<longrightarrow>
      parse_profile_list out = List.map_filter entry_name body) \<and>
   ((\<forall>c \<in> set ws0 \<union> set ws1 \<union> set ws2. isspace c) \<and> name \<noteq> [] \<and> \<not> isspace (hd name) \<and>
    \<not> isspace (last name) \<and> NL \<notin> set name \<longrightarrow>
      entry_name (ws0 @ all_user_profiles_label @ ws1 @ COLON # ws2 @ name) = Some name) \<and>
   ((\<forall>l \<in> set (split_nl out). \<not> is_header l) \<longrightarrow> parse_profile_list out = [])"
proof (intro conjI impI)
  assume a: "split_nl out = pre @ h # body @ rest \<and> (\<forall>l \<in> set pre. \<not> is_header l) \<and> is_header h \<and>
    (\<forall>l \<in> set body. \<not> ends_section l) \<and> (rest = [] \<or> ends_section (hd rest))"
  then have "parse_profile_list out = scan_list False [] (pre @ h # body @ rest)"
    by (simp add: parse_profile_list_def)
  also have "\<dots> = scan_list False [] (h # body @ rest)"
    using a by (simp add: scan_before_header)
  also have "\<dots> = scan_list True [] (body @ rest)"
    using a by (intro scan_header) simp
  also have "\<dots> = scan_list True ([] @ List.map_filter entry_name body) rest"
    using a by (intro scan_body) simp
  also have "\<dots> = List.map_filter entry_name body"
    using a by (simp add: scan_end)
  finally show "parse_profile_list out = List.map_filter entry_name body" .
next
  assume "(\<forall>c \<in> set ws0 \<union> set ws1 \<union> set ws2. isspace c) \<and> name \<noteq> [] \<and> \<not> isspace (hd name) \<and>
    \<not> isspace (last name) \<and> NL \<notin> set name"
  then show "entry_name (ws0 @ all_user_profiles_label @ ws1 @ COLON # ws2 @ name) = Some name"
    by (intro entry_shape) simp_all
next
  assume "\<forall>l \<in> set (split_nl out). \<not> is_header l"
  then show "parse_profile_list out = []"
    by (simp add: parse_profile_list_def scan_no_header)
qed

text \<open>
  The theorem at the sample output (two entries, the line behind the blank line is
  ignored) and at an output without the header.
\<close>

theorem profile_list_section_witness:
  "split_nl sample_list_output = sample_pre @ user_profiles_header # sample_body @ sample_rest \<and>
   is_header user_profiles_header \<and>
   ends_section (hd sample_rest) \<and>
   parse_profile_list sample_list_output = [ascii ''Home Net'', ascii ''Cafe''] \<and>
   entry_name (ascii ''    '' @ all_user_profiles_label @ ascii ''     '' @ COLON # ascii '' '' @ ascii ''Home Net'')
     = Some (ascii ''Home Net'') \<and>
   parse_profile_list (ascii ''There is no wireless interface on the system.'') = []"
proof -
  have h1: "split_nl sample_list_output = sample_pre @ user_profiles_header # sample_body @ sample_rest"
    by (simp add: list_eval)
  have h2: "\<forall>l \<in> set sample_pre. \<not> is_header l"
    by (simp add: list_eval)
  have h3: "is_header user_profiles_header"
    by (simp add: list_eval)
  have h4: "\<forall>l \<in> set sample_body. \<not> ends_section l"
    by (simp add: list_eval)
  have h5: "ends_section (hd sample_rest)"
    by (simp add: list_eval)
  have "parse_profile_list sample_list_output = List.map_filter entry_name sample_body"
    using profile_list_section [of sample_list_output sample_pre user_profiles_header
        sample_body sample_rest] h1 h2 h3 h4 h5 by blast
  also have "\<dots> = [ascii ''Home Net'', ascii ''Cafe'']"
    by (simp add: List.map_filter_simps list_eval)
  finally have c1: "parse_profile_list sample_list_output = [ascii ''Home Net'', ascii ''Cafe'']" .
  have n: "(\<forall>c \<in> set (ascii ''    '') \<union> set (ascii ''     '') \<union> set (ascii '' ''). isspace c) \<and>
      ascii ''Home Net'' \<noteq> [] \<and> \<not> isspace (hd (ascii ''Home Net'')) \<and>
      \<not> isspace (last (ascii ''Home Net'')) \<and> NL \<notin> set (ascii ''Home Net'')"
    by (simp add: ascii_def isspace_def)
  have c2: "entry_name (ascii ''    '' @ all_user_profiles_label @ ascii ''     '' @ COLON # ascii '' '' @ ascii ''Home Net'')
     = Some (ascii ''Home Net'')"
    using profile_list_section [of _ _ _ _ _ "ascii ''    ''" "ascii ''     ''" "ascii '' ''"
        "ascii ''Home Net''"] n by blast
  have h6: "\<forall>l \<in> set (split_nl (ascii ''There is no wireless interface on the system.'')). \<not> is_header l"
    by (simp add: list_eval)
  have c3: "parse_profile_list (ascii ''There is no wireless interface on the system.'') = []"
    using profile_list_section [of "ascii ''There is no wireless interface on the system.''"] h6
    by blast
  from h1 h3 h5 c1 c2 c3 show ?thesis by blast
qed

section \<open>The store and the two stages of the filter\<close>

lemma returned_alloc: "returned (alloc w xs) = xs"
  by (simp add: returned_def alloc_def)

lemma deref_alloc: "heap (snd (alloc w xs)) ! fst (alloc w xs) = xs"
  by (simp add: alloc_def)

lemma filter_password_only:
  "returned (filter_profiles lower self w hp None) = password_stage self w hp"
proof (cases hp)
  case None
  then show ?thesis
    by (simp add: filter_profiles_def password_stage_def returned_def)
next
  case (Some b)
  have "(\<lambda>p. key p \<noteq> [] \<and> key p \<noteq> ascii ''No password saved'' \<and> key p \<noteq> ascii ''Not found'')
          = (\<lambda>p. no_password p \<noteq> True)"
    and "(\<lambda>p. key p = [] \<or> key p = ascii ''No password saved'' \<or> key p = ascii ''Not found'')
          = (\<lambda>p. no_password p \<noteq> False)"
    by (auto simp: no_password_def)
  with Some show ?thesis
    by (cases b) (simp_all add: filter_profiles_def password_stage_def returned_alloc)
qed

lemma filter_with_text:
  assumes "f \<noteq> []"
  shows "returned (filter_profiles lower self w hp (Some f)) =
           filter (\<lambda>p. contains (lower f) (lower (ssid p))) (password_stage self w hp)"
proof (cases hp)
  case None
  with assms show ?thesis
    by (simp add: filter_profiles_def password_stage_def returned_alloc)
next
  case (Some b)
  have "(\<lambda>p. key p \<noteq> [] \<and> key p \<noteq> ascii ''No password saved'' \<and> key p \<noteq> ascii ''Not found'')
          = (\<lambda>p. no_password p \<noteq> True)"
    and "(\<lambda>p. key p = [] \<or> key p = ascii ''No password saved'' \<or> key p = ascii ''Not found'')
          = (\<lambda>p. no_password p \<noteq> False)"
    by (auto simp: no_password_def)
  with Some assms show ?thesis
    by (cases b)
       (simp_all add: filter_profiles_def password_stage_def returned_alloc split_beta deref_alloc Let_def)
qed

lemma filter_empty_text:
  "filter_profiles lower self w hp (Some []) = filter_profiles lower self w hp None"
  by (simp add: filter_profiles_def)

lemma contains_Nil: "contains [] s"
  by (cases s) (simp_all add: startswith_def)

lemma contains_iff: "contains sub s \<longleftrightarrow> (\<exists>a b. s = a @ sub @ b)"
proof (induction s)
  case Nil
  then show ?case by simp
next
  case (Cons c cs)
  have "(\<exists>a b. c # cs = a @ sub @ b) \<longleftrightarrow> (\<exists>r. c # cs = sub @ r) \<or> (\<exists>a b. cs = a @ sub @ b)"
    by (auto simp: Cons_eq_append_conv)
  with Cons show ?case by (simp add: startswith_iff)
qed

section \<open>Filtering by password\<close>

lemmas sample_eval =
  sample_self_def sample_world_def sample_profiles_def defaults_def ascii_def no_password_def
  password_stage_def ascii_lower_def

text \<open>
  C4. Without a text filter, filtering with \<open>has_password=True\<close> returns no profile whose
  key is empty or one of the sentinels \<open>No password saved\<close>, \<open>Not found\<close>; it returns the
  stored profiles that have a password, and filtering with \<open>has_password=False\<close> returns
  exactly the stored profiles that have none, both in the stored order. The two results
  partition the stored collection: together they hold every stored profile as often as
  the collection does, and no profile is in both.
\<close>

theorem password_filter_partition:
  "(\<forall>p \<in> set (returned (filter_profiles lower self w (Some True) None)).
      key p \<noteq> [] \<and> key p \<noteq> ascii ''No password saved'' \<and> key p \<noteq> ascii ''Not found'') \<and>
   returned (filter_profiles lower self w (Some True) None)
     = filter (\<lambda>p. \<not> no_password p) (heap w ! profiles self) \<and>
   returned (filter_profiles lower self w (Some False) None)
     = filter no_password (heap w ! profiles self) \<and>
   mset (returned (filter_profiles lower self w (Some True) None)) +
     mset (returned (filter_profiles lower self w (Some False) None))
     = mset (heap w ! profiles self) \<and>
   set (returned (filter_profiles lower self w (Some True) None)) \<inter>
     set (returned (filter_profiles lower self w (Some False) None)) = {}"
proof -
  have y: "returned (filter_profiles lower self w (Some True) None)
             = filter (\<lambda>p. \<not> no_password p) (heap w ! profiles self)"
    by (simp add: filter_password_only password_stage_def)
  have n: "returned (filter_profiles lower self w (Some False) None)
             = filter no_password (heap w ! profiles self)"
    by (simp add: filter_password_only password_stage_def)
  have 1: "\<forall>p \<in> set (returned (filter_profiles lower self w (Some True) None)).
      key p \<noteq> [] \<and> key p \<noteq> ascii ''No password saved'' \<and> key p \<noteq> ascii ''Not found''"
    unfolding y by (simp add: no_password_def)
  have 4: "mset (returned (filter_profiles lower self w (Some True) None)) +
     mset (returned (filter_profiles lower self w (Some False) None))
     = mset (heap w ! profiles self)"
    unfolding y n by (induction "heap w ! profiles self") simp_all
  have 5: "set (returned (filter_profiles lower self w (Some True) None)) \<inter>
     set (returned (filter_profiles lower self w (Some False) None)) = {}"
    unfolding y n by auto
  from 1 y n 4 5 show ?thesis by blast
qed

text \<open>The theorem at the three sample profiles: one with a password, two without.\<close>

theorem password_filter_partition_witness:
  "heap sample_world ! profiles sample_self = sample_profiles \<and>
   returned (filter_profiles ascii_lower sample_self sample_world (Some True) None)
     = [(defaults (ascii ''My-Home-Net''))\<lparr>key := ascii ''hunter2''\<rparr>] \<and>
   returned (filter_profiles ascii_lower sample_self sample_world (Some False) None)
     = [(defaults (ascii ''Cafe''))\<lparr>key := ascii ''No password saved''\<rparr>, defaults (ascii ''Office'')]"
proof -
  have s: "heap sample_world ! profiles sample_self = sample_profiles"
    by (simp add: sample_self_def sample_world_def)
  have "returned (filter_profiles ascii_lower sample_self sample_world (Some True) None)
          = filter (\<lambda>p. \<not> no_password p) sample_profiles"
    using password_filter_partition [of ascii_lower sample_self sample_world] s by simp
  moreover have "returned (filter_profiles ascii_lower sample_self sample_world (Some False) None)
          = filter no_password sample_profiles"
    using password_filter_partition [of ascii_lower sample_self sample_world] s by simp
  ultimately show ?thesis using s by (simp add: sample_eval)
qed

section \<open>Filtering by SSID\<close>

text \<open>
  C8. For every filter text, the profiles returned are exactly those left by the password
  stage whose lower-cased ssid has the lower-cased filter text as a substring
  (\<open>contains\<close> is the substring relation); in particular the filter \<open>HOME\<close> keeps a
  stored profile whose ssid is \<open>My-Home-Net\<close>. \<open>lower\<close> is the interpreter's
  \<open>str.lower\<close>, of which the theorem uses that it maps the empty text to itself and,
  for the example, what it gives on the two texts.
\<close>

theorem ssid_filter_substring:
  assumes "lower [] = []"
  shows "returned (filter_profiles lower self w hp (Some f))
           = filter (\<lambda>p. contains (lower f) (lower (ssid p)))
               (returned (filter_profiles lower self w hp None)) \<and>
         (contains sub s \<longleftrightarrow> (\<exists>a b. s = a @ sub @ b)) \<and>
         (lower (ascii ''HOME'') = ascii ''home'' \<and>
          lower (ascii ''My-Home-Net'') = ascii ''my-home-net'' \<and>
          p \<in> set (heap w ! profiles self) \<and> ssid p = ascii ''My-Home-Net'' \<longrightarrow>
            p \<in> set (returned (filter_profiles lower self w None (Some (ascii ''HOME'')))))"
proof (intro conjI impI)
  show "returned (filter_profiles lower self w hp (Some f))
           = filter (\<lambda>p. contains (lower f) (lower (ssid p)))
               (returned (filter_profiles lower self w hp None))"
  proof (cases "f = []")
    case True
    with assms show ?thesis
      by (simp add: filter_empty_text contains_Nil)
  next
    case False
    then show ?thesis by (simp add: filter_with_text filter_password_only)
  qed
next
  show "contains sub s \<longleftrightarrow> (\<exists>a b. s = a @ sub @ b)" by (rule contains_iff)
next
  assume a: "lower (ascii ''HOME'') = ascii ''home'' \<and>
          lower (ascii ''My-Home-Net'') = ascii ''my-home-net'' \<and>
          p \<in> set (heap w ! profiles self) \<and> ssid p = ascii ''My-Home-Net''"
  have ne: "ascii ''HOME'' \<noteq> []" by (simp add: ascii_def)
  have "contains (ascii ''home'') (ascii ''my-home-net'')"
    by (simp add: ascii_def startswith_def)
  with a show "p \<in> set (returned (filter_profiles lower self w None (Some (ascii ''HOME''))))"
    by (simp add: filter_with_text [OF ne] password_stage_def)
qed

text \<open>The theorem with the lower-casing of ASCII, at the sample profiles.\<close>

theorem ssid_filter_substring_witness:
  "ascii_lower [] = [] \<and>
   ascii_lower (ascii ''HOME'') = ascii ''home'' \<and>
   ascii_lower (ascii ''My-Home-Net'') = ascii ''my-home-net'' \<and>
   returned (filter_profiles ascii_lower sample_self sample_world None (Some (ascii ''HOME'')))
     = [(defaults (ascii ''My-Home-Net''))\<lparr>key := ascii ''hunter2''\<rparr>] \<and>
   (defaults (ascii ''My-Home-Net''))\<lparr>key := ascii ''hunter2''\<rparr>
     \<in> set (returned (filter_profiles ascii_lower sample_self sample_world None (Some (ascii ''HOME''))))"
proof -
  let ?p = "(defaults (ascii ''My-Home-Net''))\<lparr>key := ascii ''hunter2''\<rparr>"
  have l: "ascii_lower [] = []" by (simp add: ascii_lower_def)
  have h: "ascii_lower (ascii ''HOME'') = ascii ''home''"
    "ascii_lower (ascii ''My-Home-Net'') = ascii ''my-home-net''"
    by (simp_all add: ascii_lower_def ascii_def)
  have n: "returned (filter_profiles ascii_lower sample_self sample_world None None) = sample_profiles"
    by (simp add: filter_password_only sample_eval)
  have "returned (filter_profiles ascii_lower sample_self sample_world None (Some (ascii ''HOME'')))
          = filter (\<lambda>p. contains (ascii_lower (ascii ''HOME'')) (ascii_lower (ssid p))) sample_profiles"
    using ssid_filter_substring [where lower = ascii_lower and self = sample_self
        and w = sample_world and hp = None and f = "ascii ''HOME''"] l n by simp
  also have "\<dots> = [?p]"
    by (simp add: sample_eval startswith_def)
  finally have c: "returned (filter_profiles ascii_lower sample_self sample_world None
      (Some (ascii ''HOME''))) = [?p]" .
  have m: "?p \<in> set (heap sample_world ! profiles sample_self)" "ssid ?p = ascii ''My-Home-Net''"
    by (simp_all add: sample_eval)
  have "?p \<in> set (returned (filter_profiles ascii_lower sample_self sample_world None
      (Some (ascii ''HOME''))))"
    using ssid_filter_substring [where lower = ascii_lower and self = sample_self
        and w = sample_world and p = ?p] l h m by blast
  with l h c show ?thesis by blast
qed

section \<open>Filtering and the stored collection\<close>

text \<open>
  C9, as the code has it. For every combination of the two filter arguments the call
  changes no list that existed before it, so the stored collection has the same elements
  in the same order afterwards. When a filter is active (\<open>has_password\<close> is given, or the
  filter text is not empty) the result is a list created by the call, different from the
  stored one. When none is active the result is the stored list itself and nothing is
  created.
\<close>

theorem filter_keeps_source:
  assumes "profiles self < length (heap w)"
  shows "take (length (heap w)) (heap (snd (filter_profiles lower self w hp sf))) = heap w \<and>
         heap (snd (filter_profiles lower self w hp sf)) ! profiles self = heap w ! profiles self \<and>
         (hp \<noteq> None \<or> (sf \<noteq> None \<and> sf \<noteq> Some []) \<longrightarrow>
            length (heap w) \<le> fst (filter_profiles lower self w hp sf) \<and>
            fst (filter_profiles lower self w hp sf)
              < length (heap (snd (filter_profiles lower self w hp sf))) \<and>
            fst (filter_profiles lower self w hp sf) \<noteq> profiles self) \<and>
         (hp = None \<and> (sf = None \<or> sf = Some []) \<longrightarrow>
            filter_profiles lower self w hp sf = (profiles self, w))"
proof -
  let ?R = "filter_profiles lower self w hp sf"
  have keep: "take (length (heap w)) (heap (snd ?R)) = heap w"
    by (cases hp; cases sf)
       (auto simp: filter_profiles_def alloc_def Let_def split_beta split: bool.splits)
  have "heap (snd ?R) ! profiles self = take (length (heap w)) (heap (snd ?R)) ! profiles self"
    using assms by simp
  with keep have same: "heap (snd ?R) ! profiles self = heap w ! profiles self" by simp
  have fresh: "hp \<noteq> None \<or> (sf \<noteq> None \<and> sf \<noteq> Some []) \<longrightarrow>
      length (heap w) \<le> fst ?R \<and> fst ?R < length (heap (snd ?R)) \<and> fst ?R \<noteq> profiles self"
    using assms
    by (cases hp; cases sf)
       (auto simp: filter_profiles_def alloc_def Let_def split_beta split: bool.splits)
  have same_object: "hp = None \<and> (sf = None \<or> sf = Some []) \<longrightarrow> ?R = (profiles self, w)"
    by (auto simp: filter_profiles_def)
  from keep same fresh same_object show ?thesis by blast
qed

text \<open>The theorem at the sample extractor, with both filters and with none.\<close>

theorem filter_keeps_source_witness:
  "profiles sample_self < length (heap sample_world) \<and>
   heap (snd (filter_profiles ascii_lower sample_self sample_world (Some True) (Some (ascii ''HOME''))))
     ! profiles sample_self = sample_profiles \<and>
   fst (filter_profiles ascii_lower sample_self sample_world (Some True) (Some (ascii ''HOME'')))
     \<noteq> profiles sample_self \<and>
   filter_profiles ascii_lower sample_self sample_world None (Some [])
     = (profiles sample_self, sample_world)"
proof -
  have h: "profiles sample_self < length (heap sample_world)"
    by (simp add: sample_self_def sample_world_def)
  have s: "heap sample_world ! profiles sample_self = sample_profiles"
    by (simp add: sample_self_def sample_world_def)
  note t = filter_keeps_source [OF h, of ascii_lower]
  have a: "heap (snd (filter_profiles ascii_lower sample_self sample_world (Some True)
      (Some (ascii ''HOME'')))) ! profiles sample_self = sample_profiles"
    using t [of "Some True" "Some (ascii ''HOME'')"] s by simp
  have ne: "Some (ascii ''HOME'') \<noteq> Some []" by (simp add: ascii_def)
  have b: "fst (filter_profiles ascii_lower sample_self sample_world (Some True)
      (Some (ascii ''HOME''))) \<noteq> profiles sample_self"
    using t [of "Some True" "Some (ascii ''HOME'')"] by simp
  have c: "filter_profiles ascii_lower sample_self sample_world None (Some [])
     = (profiles sample_self, sample_world)"
    using t [of None "Some []"] by simp
  from h a b c show ?thesis by blast
qed

text \<open>
  C9 as it is written fails for the call without filters: it returns the reference of
  the stored list, not a new collection, and appending to the result appends to the
  stored collection.
\<close>

theorem filter_keeps_source_counterexample:
  "fst (filter_profiles ascii_lower sample_self sample_world None None) = profiles sample_self \<and>
   heap (list_append (snd (filter_profiles ascii_lower sample_self sample_world None None))
           (fst (filter_profiles ascii_lower sample_self sample_world None None))
           (defaults (ascii ''Added''))) ! profiles sample_self
     = sample_profiles @ [defaults (ascii ''Added'')]"
  by (simp add: filter_profiles_def list_append_def sample_self_def sample_world_def)

section \<open>Statistics\<close>

text \<open>
  C10. In the statistics \<open>with_password + without_password = total_profiles\<close>,
  \<open>with_password\<close> is the length of the result of filtering the same collection with
  \<open>has_password=True\<close>, \<open>total_profiles\<close> is the length of the collection, and
  \<open>without_password\<close> is not negative.
\<close>

theorem stats_consistent:
  "with_password (get_stats self w) + without_password (get_stats self w)
     = total_profiles (get_stats self w) \<and>
   with_password (get_stats self w)
     = int (length (returned (filter_profiles lower self w (Some True) None))) \<and>
   total_profiles (get_stats self w) = int (length (heap w ! profiles self)) \<and>
   0 \<le> without_password (get_stats self w)"
proof -
  have "(\<lambda>p. key p \<noteq> [] \<and> key p \<noteq> ascii ''No password saved'' \<and> key p \<noteq> ascii ''Not found'')
          = (\<lambda>p. \<not> no_password p)"
    by (auto simp: no_password_def)
  then show ?thesis
    by (simp add: get_stats_def Let_def filter_password_only password_stage_def)
qed

text \<open>The theorem at the three sample profiles.\<close>

theorem stats_consistent_witness:
  "total_profiles (get_stats sample_self sample_world) = 3 \<and>
   with_password (get_stats sample_self sample_world) = 1 \<and>
   without_password (get_stats sample_self sample_world) = 2 \<and>
   length (returned (filter_profiles ascii_lower sample_self sample_world (Some True) None)) = 1"
proof -
  note t = stats_consistent [of sample_self sample_world ascii_lower]
  have l: "length (returned (filter_profiles ascii_lower sample_self sample_world (Some True) None)) = 1"
    by (simp add: filter_password_only sample_eval)
  have n: "total_profiles (get_stats sample_self sample_world) = 3"
    using t by (simp add: sample_eval)
  have y: "with_password (get_stats sample_self sample_world) = 1"
    using t l by simp
  have "without_password (get_stats sample_self sample_world) = 2"
    using t n y by linarith
  with n y l show ?thesis by blast
qed

section \<open>Extraction without elevation\<close>

text \<open>
  C5. When the extractor is not elevated, \<open>extract_profiles\<close> raises the privilege error
  and leaves the extractor and the world as they were: no command has been run (the
  record of commands is the same), and the stored collection and every list are
  unchanged.
\<close>

theorem extract_requires_admin:
  assumes "\<not> is_admin self"
  shows "extract_profiles sh self w = (Inl (PermissionError admin_message), self, w)"
  using assms by (simp add: extract_profiles_def)

text \<open>The theorem at the sample extractor, which is not elevated.\<close>

theorem extract_requires_admin_witness:
  "\<not> is_admin sample_self \<and>
   extract_profiles (\<lambda>history command. ascii ''Error: '') sample_self sample_world
     = (Inl (PermissionError admin_message), sample_self, sample_world) \<and>
   commands (snd (snd (extract_profiles (\<lambda>history command. ascii ''Error: '') sample_self sample_world)))
     = []"
proof -
  have h: "\<not> is_admin sample_self" by (simp add: sample_self_def)
  from extract_requires_admin [OF h, of "\<lambda>history command. ascii ''Error: ''" sample_world] h
  show ?thesis by (simp add: sample_world_def)
qed

text \<open>With elevation the list command runs first, then one detail command per name.\<close>

lemma extract_one_commands:
  "commands (foldl (extract_one sh r) w names) = commands w @ map details_command names"
  by (induction names arbitrary: w)
     (simp_all add: extract_one_def run_command_def list_append_def)

lemma extract_runs_commands:
  assumes "is_admin self"
  shows "commands (snd (snd (extract_profiles sh self w)))
           = commands w @ ascii ''netsh wlan show profiles'' #
               map details_command
                 (parse_profile_list (sh (commands w) (ascii ''netsh wlan show profiles'')))"
  using assms
  by (simp add: extract_profiles_def run_command_def alloc_def Let_def extract_one_commands)

section \<open>Export\<close>

lemma try_export_write:
  "try_export label (write_file disk w fn c) =
     (case disk (files w) fn c of
        Written \<Rightarrow> (Inr True, w\<lparr>files := (files w)(fn \<mapsto> c)\<rparr>)
      | Failed e left \<Rightarrow>
          if is_Exception e
          then (Inr False, w\<lparr>files := (files w)(fn := left),
                               stdout := stdout w @ [PText (label @ exc_str e)]\<rparr>)
          else (Inl e, w\<lparr>files := (files w)(fn := left)\<rparr>))"
  by (simp add: try_export_def write_file_def split: io_outcome.splits)

text \<open>
  C7. For every path, collection and format: when the write goes through, the export
  returns \<open>True\<close>; when it fails with an exception of class \<open>Exception\<close> (as every I/O
  error is), the export returns \<open>False\<close>, raises nothing, and has printed the message
  with the text of the exception.
\<close>

theorem export_reports_failure:
  "(disk (files w) fn (txt_content now (profiles_arg self w arg)) = Written \<longrightarrow>
      fst (export_to_txt disk now self w fn arg) = Inr True) \<and>
   (disk (files w) fn (txt_content now (profiles_arg self w arg)) = Failed e left \<and> is_Exception e \<longrightarrow>
      fst (export_to_txt disk now self w fn arg) = Inr False \<and>
      stdout (snd (export_to_txt disk now self w fn arg))
        = stdout w @ [PText (ascii ''Error saving to TXT: '' @ exc_str e)]) \<and>
   (disk (files w) fn (csv_content csv_row (profiles_arg self w arg)) = Written \<longrightarrow>
      fst (export_to_csv disk csv_row self w fn arg) = Inr True) \<and>
   (disk (files w) fn (csv_content csv_row (profiles_arg self w arg)) = Failed e left \<and> is_Exception e \<longrightarrow>
      fst (export_to_csv disk csv_row self w fn arg) = Inr False \<and>
      stdout (snd (export_to_csv disk csv_row self w fn arg))
        = stdout w @ [PText (ascii ''Error saving to CSV: '' @ exc_str e)]) \<and>
   (disk (files w) fn (dumps 0 (json_document now (profiles_arg self w arg))) = Written \<longrightarrow>
      fst (export_to_json disk now self w fn arg) = Inr True) \<and>
   (disk (files w) fn (dumps 0 (json_document now (profiles_arg self w arg))) = Failed e left \<and>
    is_Exception e \<longrightarrow>
      fst (export_to_json disk now self w fn arg) = Inr False \<and>
      stdout (snd (export_to_json disk now self w fn arg))
        = stdout w @ [PText (ascii ''Error saving to JSON: '' @ exc_str e)])"
  by (simp add: export_to_txt_def export_to_csv_def export_to_json_def try_export_write Let_def)

text \<open>The theorem on a disk that refuses every write and on one that accepts them.\<close>

theorem export_reports_failure_witness:
  "fst (export_to_txt read_only_disk (ascii ''2024-01-01 00:00:00'') sample_self sample_world
          (ascii ''out.txt'') None) = Inr False \<and>
   stdout (snd (export_to_txt read_only_disk (ascii ''2024-01-01 00:00:00'') sample_self sample_world
          (ascii ''out.txt'') None))
     = [PText (ascii ''Error saving to TXT: '' @ ascii ''Permission denied'')] \<and>
   fst (export_to_csv read_only_disk plain_row sample_self sample_world (ascii ''out.csv'') None)
     = Inr False \<and>
   fst (export_to_json read_only_disk (ascii ''2024-01-01T00:00:00'') sample_self sample_world
          (ascii ''out.json'') None) = Inr False \<and>
   fst (export_to_txt good_disk (ascii ''2024-01-01 00:00:00'') sample_self sample_world
          (ascii ''out.txt'') None) = Inr True \<and>
   fst (export_to_csv good_disk plain_row sample_self sample_world (ascii ''out.csv'') None)
     = Inr True \<and>
   fst (export_to_json good_disk (ascii ''2024-01-01T00:00:00'') sample_self sample_world
          (ascii ''out.json'') None) = Inr True"
proof -
  let ?e = "PermissionError (ascii ''Permission denied'')"
  have x: "is_Exception ?e" "exc_str ?e = ascii ''Permission denied''" by simp_all
  have s: "stdout sample_world = []" by (simp add: sample_world_def)
  note bad = export_reports_failure [where disk = read_only_disk and w = sample_world
      and self = sample_self and arg = None and e = ?e and left = None and csv_row = plain_row]
  note good = export_reports_failure [where disk = good_disk and w = sample_world
      and self = sample_self and arg = None and csv_row = plain_row]
  show ?thesis
    using bad [where now = "ascii ''2024-01-01 00:00:00''" and fn = "ascii ''out.txt''"]
      bad [where fn = "ascii ''out.csv''"]
      bad [where now = "ascii ''2024-01-01T00:00:00''" and fn = "ascii ''out.json''"]
      good [where now = "ascii ''2024-01-01 00:00:00''" and fn = "ascii ''out.txt''"]
      good [where fn = "ascii ''out.csv''"]
      good [where now = "ascii ''2024-01-01T00:00:00''" and fn = "ascii ''out.json''"]
      x s
    by (simp add: read_only_disk_def good_disk_def)
qed

text \<open>An exception outside \<open>Exception\<close> is not caught.\<close>

lemma export_lets_interrupt_through:
  "disk (files w) fn (txt_content now (profiles_arg self w arg)) = Failed KeyboardInterrupt left \<Longrightarrow>
   fst (export_to_txt disk now self w fn arg) = Inl KeyboardInterrupt"
  by (simp add: export_to_txt_def try_export_write Let_def)

section \<open>Strings of a document\<close>

lemma hex_val_digit: "d < 16 \<Longrightarrow> hex_val (hex_digit d) = Some d"
  by (auto simp: hex_val_def hex_digit_def)

lemma hex4_control:
  assumes "c < 32"
  shows "hex4 [48, 48, hex_digit (c div 16), hex_digit (c mod 16)] = Some c"
proof -
  from assms have "c div 16 < 16" by simp
  moreover have "c mod 16 < 16" by simp
  moreover have "hex_val 48 = Some 0" by (simp add: hex_val_def)
  ultimately show ?thesis by (simp add: hex4_def hex_val_digit)
qed

lemma scan_escape:
  assumes "scan_string X = Some (s, rest)"
  shows "scan_string (escape_char c @ X) = Some (c # s, rest)"
proof (cases "c < 32 \<and> c \<notin> {8, 9, 10, 12, 13}")
  case True
  then have "escape_char c = [92, 117, 48, 48, hex_digit (c div 16), hex_digit (c mod 16)]"
    by (simp add: escape_char_def)
  with True assms show ?thesis
    by (simp add: hex4_control cons_fst_def)
next
  case False
  with assms show ?thesis
    by (auto simp: escape_char_def unescape_def cons_fst_def)
qed

lemma scan_string_encoded:
  "scan_string (concat (map escape_char s) @ 34 # rest) = Some (s, rest)"
  by (induction s) (simp_all add: scan_escape)

section \<open>Integers of a document\<close>

declare str_nat.simps [simp del]

lemma str_nat_digits: "d \<in> set (str_nat n) \<Longrightarrow> is_digit d"
proof (induction n rule: str_nat.induct)
  case (1 n)
  then show ?case
    by (subst (asm) str_nat.simps) (auto simp: is_digit_def split: if_splits)
qed

lemma str_nat_nonempty: "str_nat n \<noteq> []"
  by (subst str_nat.simps) simp

lemma str_nat_zero: "str_nat 0 = [48]"
  by (subst str_nat.simps) simp

lemma str_nat_hd: "n \<noteq> 0 \<Longrightarrow> hd (str_nat n) \<noteq> 48"
proof (induction n rule: str_nat.induct)
  case (1 n)
  show ?case
  proof (cases "n < 10")
    case True
    with 1 show ?thesis by (subst str_nat.simps) simp
  next
    case False
    then have "n div 10 \<noteq> 0" by simp
    with 1 False have "hd (str_nat (n div 10)) \<noteq> 48" by simp
    with False show ?thesis
      by (subst str_nat.simps) (simp add: str_nat_nonempty)
  qed
qed

lemma digits_val_snoc: "digits_val (xs @ [d]) = 10 * digits_val xs + (d - 48)"
  by (simp add: digits_val_def)

lemma digits_val_str_nat: "digits_val (str_nat n) = n"
proof (induction n rule: str_nat.induct)
  case (1 n)
  show ?case
  proof (cases "n < 10")
    case True
    then show ?thesis by (subst str_nat.simps) (simp add: digits_val_def)
  next
    case False
    with 1 have "digits_val (str_nat (n div 10)) = n div 10" by simp
    with False show ?thesis
      by (subst str_nat.simps) (simp add: digits_val_snoc)
  qed
qed

lemma after_number_digit: "after_number rest \<Longrightarrow> takeWhile is_digit rest = []"
  by (cases rest) (auto simp: after_number_def is_digit_def)

lemma after_number_point:
  "after_number rest \<Longrightarrow> take 1 rest \<noteq> [46] \<and> take 1 rest \<noteq> [101] \<and> take 1 rest \<noteq> [69]"
  by (cases rest) (auto simp: after_number_def)

lemma digits_then_rest:
  assumes "after_number rest"
  shows "takeWhile is_digit (str_nat n @ rest) = str_nat n"
    and "dropWhile is_digit (str_nat n @ rest) = rest"
proof -
  have d: "\<And>x. x \<in> set (str_nat n) \<Longrightarrow> is_digit x" by (rule str_nat_digits)
  from assms have e: "takeWhile is_digit rest = []" by (rule after_number_digit)
  show "takeWhile is_digit (str_nat n @ rest) = str_nat n"
    using d e by (simp add: takeWhile_append2)
  from e have "dropWhile is_digit rest = rest"
    by (metis append_Nil takeWhile_dropWhile_id)
  then show "dropWhile is_digit (str_nat n @ rest) = rest"
    using d by (simp add: dropWhile_append2)
qed

lemma scan_digits_str_nat:
  assumes "after_number rest"
  shows "scan_digits (str_nat n @ rest) = Some (n, rest)"
proof (cases "n = 0")
  case True
  then show ?thesis by (simp add: str_nat_zero scan_digits_def)
next
  case False
  obtain d ds where s: "str_nat n = d # ds"
    using str_nat_nonempty [of n] by (cases "str_nat n") auto
  with False have "d \<noteq> 48" using str_nat_hd [of n] by simp
  moreover from s have "is_digit d" using str_nat_digits [of d n] by simp
  moreover have "takeWhile is_digit (d # ds @ rest) = d # ds"
    "dropWhile is_digit (d # ds @ rest) = rest"
    using digits_then_rest [OF assms, of n] s by simp_all
  moreover have "digits_val (d # ds) = n" using digits_val_str_nat [of n] s by simp
  ultimately show ?thesis
    by (simp add: s scan_digits_def del: takeWhile.simps dropWhile.simps)
qed

lemma str_nat_not_minus: "take 1 (str_nat n @ rest) \<noteq> [45]"
proof -
  obtain d ds where s: "str_nat n = d # ds"
    using str_nat_nonempty [of n] by (cases "str_nat n") auto
  then have "is_digit d" using str_nat_digits [of d n] by simp
  with s show ?thesis by (auto simp: is_digit_def)
qed

lemma scan_int_str_int:
  assumes "after_number rest"
  shows "scan_int (str_int i @ rest) = Some (i, rest)"
proof (cases "i < 0")
  case True
  then show ?thesis
    using after_number_point [OF assms]
    by (simp add: scan_int_def str_int_def scan_digits_str_nat [OF assms])
next
  case False
  then show ?thesis
    using after_number_point [OF assms] str_nat_not_minus [of "nat i" rest]
    by (simp add: scan_int_def str_int_def scan_digits_str_nat [OF assms])
qed

section \<open>Values of a document\<close>

lemma str_int_first: "\<exists>c cs. str_int i = c # cs \<and> (c = 45 \<or> is_digit c)"
proof (cases "i < 0")
  case True
  then show ?thesis by (simp add: str_int_def)
next
  case False
  obtain d ds where s: "str_nat (nat i) = d # ds"
    using str_nat_nonempty [of "nat i"] by (cases "str_nat (nat i)") auto
  then have "is_digit d" using str_nat_digits [of d "nat i"] by simp
  with s False show ?thesis by (simp add: str_int_def)
qed

lemma dumps_first:
  "\<exists>c cs. dumps l v = c # cs \<and> \<not> json_ws c \<and> c \<noteq> 93 \<and> c \<noteq> 125"
proof (cases v)
  case (JStr s)
  then show ?thesis by (simp add: encode_str_def json_ws_def)
next
  case (JInt i)
  then show ?thesis
    using str_int_first [of i] by (auto simp: json_ws_def is_digit_def)
next
  case (JArr vs)
  then show ?thesis by (simp add: json_ws_def)
next
  case (JObj kvs)
  then show ?thesis by (simp add: json_ws_def)
qed

lemma skip_ws_first: "\<not> json_ws c \<Longrightarrow> skip_ws (c # cs) = c # cs"
  by (simp add: skip_ws_def)

lemma skip_ws_indent: "skip_ws (newline_indent k @ s) = skip_ws s"
proof -
  have "\<And>x. x \<in> set (newline_indent k) \<Longrightarrow> json_ws x"
    by (auto simp: newline_indent_def json_ws_def)
  then show ?thesis
    unfolding skip_ws_def by (rule dropWhile_append2)
qed

lemma skip_ws_space: "skip_ws (32 # s) = skip_ws s"
  by (simp add: skip_ws_def json_ws_def)

lemma join_Cons: "ys \<noteq> [] \<Longrightarrow> join sep (y # ys) = y @ sep @ join sep ys"
  by (cases ys) simp_all

lemma join_first:
  assumes "xs \<noteq> []" "\<exists>c cs. f (hd xs) = c # cs \<and> Q c"
  shows "\<exists>c cs. join sep (map f xs) = c # cs \<and> Q c"
proof (cases xs)
  case Nil
  with assms show ?thesis by simp
next
  case (Cons x xs')
  with assms obtain c cs where "f x = c # cs" "Q c" by auto
  with Cons show ?thesis by (cases xs') auto
qed

lemma after_number_simps: "after_number (44 # s)" "after_number (newline_indent l @ s)"
  by (simp_all add: after_number_def newline_indent_def)

lemma array_items:
  assumes "vs \<noteq> []"
    and "\<And>v. v \<in> set vs \<Longrightarrow> reads_back v"
    and "length (join (44 # newline_indent l') (map (dumps l') vs)) < n"
  shows "parse_array n (join (44 # newline_indent l') (map (dumps l') vs) @
                        newline_indent l @ 93 # rest) = Some (vs, rest)"
  using assms
proof (induction vs arbitrary: n rule: list_nonempty_induct)
  case (single v)
  then obtain m where n: "n = Suc m" and m: "length (dumps l' v) \<le> m"
    by (cases n) auto
  from single have "reads_back v" by simp
  with m have "parse_value m (dumps l' v @ newline_indent l @ 93 # rest)
                 = Some (v, newline_indent l @ 93 # rest)"
    unfolding reads_back_def using after_number_simps(2) by blast
  moreover have "skip_ws (newline_indent l @ 93 # rest) = 93 # rest"
    by (simp add: skip_ws_indent skip_ws_first json_ws_def)
  ultimately show ?case by (simp add: n)
next
  case (cons v vs)
  let ?sep = "44 # newline_indent l'"
  let ?J = "join ?sep (map (dumps l') vs)"
  let ?tail = "newline_indent l @ 93 # rest"
  from cons.hyps have j: "join ?sep (dumps l' v # map (dumps l') vs) = dumps l' v @ ?sep @ ?J"
    by (simp add: join_Cons)
  with cons.prems obtain m where n: "n = Suc m" and m: "length (dumps l' v) \<le> m"
    and m': "length ?J < m"
    by (cases n) auto
  from cons.prems have "reads_back v" by simp
  with m have "parse_value m (dumps l' v @ 44 # newline_indent l' @ ?J @ ?tail)
                 = Some (v, 44 # newline_indent l' @ ?J @ ?tail)"
    unfolding reads_back_def using after_number_simps(1) by blast
  moreover have "skip_ws (44 # newline_indent l' @ ?J @ ?tail) = 44 # newline_indent l' @ ?J @ ?tail"
    by (simp add: skip_ws_first json_ws_def)
  moreover have "skip_ws (newline_indent l' @ ?J @ ?tail) = ?J @ ?tail"
  proof -
    obtain c cs where "?J = c # cs" "\<not> json_ws c"
      using join_first [OF cons.hyps(1), of "dumps l'" "\<lambda>c. \<not> json_ws c" ?sep] dumps_first
      by metis
    then show ?thesis by (simp add: skip_ws_indent skip_ws_first)
  qed
  moreover have "parse_array m (?J @ ?tail) = Some (vs, rest)"
    using cons.prems m' by (intro cons.IH) simp_all
  ultimately show ?case by (simp add: n j cons_fst_def)
qed

lemma skip_ws_dumps: "skip_ws (dumps l v @ t) = dumps l v @ t"
proof -
  obtain c cs where "dumps l v = c # cs" "\<not> json_ws c"
    using dumps_first [of l v] by auto
  then show ?thesis by (simp add: skip_ws_first)
qed

lemma parse_object_step:
  assumes "parse_value m (dumps l' v @ X) = Some (v, X)"
  shows "parse_object (Suc m) (34 # concat (map escape_char k) @ 34 # 58 # 32 # dumps l' v @ X) =
           (case skip_ws X of
              [] \<Rightarrow> None
            | d # r3 \<Rightarrow>
                if d = 125 then Some ([(k, v)], r3)
                else if d = 44 then cons_fst (k, v) (parse_object m (skip_ws r3))
                else None)"
  by (simp add: scan_string_encoded skip_ws_first json_ws_def skip_ws_space skip_ws_dumps assms)

lemma object_members:
  assumes "kvs \<noteq> []"
    and "\<And>kv. kv \<in> set kvs \<Longrightarrow> reads_back (snd kv)"
    and "length (join (44 # newline_indent l')
                   (map (\<lambda>kv. encode_str (fst kv) @ [58, 32] @ dumps l' (snd kv)) kvs)) < n"
  shows "parse_object n
           (join (44 # newline_indent l')
              (map (\<lambda>kv. encode_str (fst kv) @ [58, 32] @ dumps l' (snd kv)) kvs) @
            newline_indent l @ 125 # rest) = Some (kvs, rest)"
  using assms
proof (induction kvs arbitrary: n rule: list_nonempty_induct)
  case (single kv)
  obtain k v where kv: "kv = (k, v)" by (cases kv)
  with single obtain m where n: "n = Suc m" and m: "length (dumps l' v) \<le> m"
    by (cases n) auto
  let ?tail = "newline_indent l @ 125 # rest"
  have "reads_back (snd kv)" by (rule single.prems(1)) simp
  with kv have "reads_back v" by simp
  with m have pv: "parse_value m (dumps l' v @ ?tail) = Some (v, ?tail)"
    unfolding reads_back_def using after_number_simps(2) by blast
  have sk: "skip_ws ?tail = 125 # rest"
    by (simp add: skip_ws_indent skip_ws_first json_ws_def)
  have t: "join (44 # newline_indent l')
             (map (\<lambda>kv. encode_str (fst kv) @ [58, 32] @ dumps l' (snd kv)) [kv]) @ ?tail
      = 34 # concat (map escape_char k) @ 34 # 58 # 32 # dumps l' v @ ?tail"
    by (simp add: kv encode_str_def)
  show ?case
    unfolding t n parse_object_step [OF pv] sk by (simp add: kv)
next
  case (cons kv kvs)
  obtain k v where kv: "kv = (k, v)" by (cases kv)
  let ?sep = "44 # newline_indent l'"
  let ?item = "\<lambda>kv. encode_str (fst kv) @ [58, 32] @ dumps l' (snd kv)"
  let ?J = "join ?sep (map ?item kvs)"
  let ?tail = "newline_indent l @ 125 # rest"
  from cons.hyps have j: "join ?sep (?item kv # map ?item kvs) = ?item kv @ ?sep @ ?J"
    by (simp add: join_Cons)
  with cons.prems kv obtain m where n: "n = Suc m" and m: "length (dumps l' v) \<le> m"
    and m': "length ?J < m"
    by (cases n) auto
  let ?X = "44 # newline_indent l' @ ?J @ ?tail"
  have "reads_back (snd kv)" by (rule cons.prems(1)) simp
  with kv have "reads_back v" by simp
  with m have pv: "parse_value m (dumps l' v @ ?X) = Some (v, ?X)"
    unfolding reads_back_def using after_number_simps(1) by blast
  have x: "skip_ws ?X = ?X"
    by (simp add: skip_ws_first json_ws_def)
  have i: "skip_ws (newline_indent l' @ ?J @ ?tail) = ?J @ ?tail"
  proof -
    have "\<exists>c cs. ?item (hd kvs) = c # cs \<and> \<not> json_ws c"
      by (simp add: encode_str_def json_ws_def)
    then obtain c cs where "?J = c # cs" "\<not> json_ws c"
      using join_first [OF cons.hyps(1), of ?item "\<lambda>c. \<not> json_ws c" ?sep] by metis
    then show ?thesis by (simp add: skip_ws_indent skip_ws_first)
  qed
  have r: "parse_object m (?J @ ?tail) = Some (kvs, rest)"
    using cons.prems m' by (intro cons.IH) simp_all
  have t: "join ?sep (map ?item (kv # kvs)) @ ?tail
      = 34 # concat (map escape_char k) @ 34 # 58 # 32 # dumps l' v @ ?X"
    using j by (simp add: kv encode_str_def)
  show ?case
    unfolding t n parse_object_step [OF pv] x using i r kv by (simp add: cons_fst_def)
qed

lemma all_read_back: "reads_back v"
proof (induction v)
  case (JStr s)
  show ?case
    unfolding reads_back_def
  proof (intro allI impI)
    fix l n rest
    assume "length (dumps l (JStr s)) \<le> n"
    then obtain m where "n = Suc m" by (cases n) (auto simp: encode_str_def)
    then show "parse_value n (dumps l (JStr s) @ rest) = Some (JStr s, rest)"
      by (simp add: encode_str_def scan_string_encoded)
  qed
next
  case (JInt i)
  show ?case
    unfolding reads_back_def
  proof (intro allI impI)
    fix l n rest
    assume len: "length (dumps l (JInt i)) \<le> n" and a: "after_number rest"
    obtain c cs where s: "str_int i = c # cs" and c: "c = 45 \<or> is_digit c"
      using str_int_first [of i] by auto
    with len obtain m where n: "n = Suc m" by (cases n) auto
    from c have "c \<noteq> 34" "c \<noteq> 91" "c \<noteq> 123" by (auto simp: is_digit_def)
    moreover have "scan_int (c # cs @ rest) = Some (i, rest)"
      using scan_int_str_int [OF a, of i] s by simp
    ultimately show "parse_value n (dumps l (JInt i) @ rest) = Some (JInt i, rest)"
      using c by (simp add: n s)
  qed
next
  case (JArr vs)
  show ?case
    unfolding reads_back_def
  proof (intro allI impI)
    fix l n rest
    assume len: "length (dumps l (JArr vs)) \<le> n"
    show "parse_value n (dumps l (JArr vs) @ rest) = Some (JArr vs, rest)"
    proof (cases "vs = []")
      case True
      with len obtain m where "n = Suc m" by (cases n) auto
      with True show ?thesis by (simp add: skip_ws_first json_ws_def)
    next
      case False
      let ?J = "join (44 # newline_indent (Suc l)) (map (dumps (Suc l)) vs)"
      let ?tail = "newline_indent l @ 93 # rest"
      from False len obtain m where n: "n = Suc m" and m: "length ?J < m"
        by (cases n) (auto simp: newline_indent_def)
      obtain c cs where J: "?J = c # cs" and c: "\<not> json_ws c" "c \<noteq> 93"
        using join_first [OF False, of "dumps (Suc l)" "\<lambda>c. \<not> json_ws c \<and> c \<noteq> 93"
            "44 # newline_indent (Suc l)"] dumps_first
        by metis
      have "skip_ws (newline_indent (Suc l) @ ?J @ ?tail) = ?J @ ?tail"
        using J c by (simp add: skip_ws_indent skip_ws_first)
      moreover have "take 1 (?J @ ?tail) \<noteq> [93]" using J c by simp
      moreover have "parse_array m (?J @ ?tail) = Some (vs, rest)"
        using False JArr m by (intro array_items) simp_all
      ultimately show ?thesis using False by (simp add: n)
    qed
  qed
next
  case (JObj kvs)
  show ?case
    unfolding reads_back_def
  proof (intro allI impI)
    fix l n rest
    assume len: "length (dumps l (JObj kvs)) \<le> n"
    show "parse_value n (dumps l (JObj kvs) @ rest) = Some (JObj kvs, rest)"
    proof (cases "kvs = []")
      case True
      with len obtain m where "n = Suc m" by (cases n) auto
      with True show ?thesis by (simp add: skip_ws_first json_ws_def)
    next
      case False
      let ?item = "\<lambda>kv. encode_str (fst kv) @ [58, 32] @ dumps (Suc l) (snd kv)"
      let ?J = "join (44 # newline_indent (Suc l)) (map ?item kvs)"
      let ?tail = "newline_indent l @ 125 # rest"
      from False len obtain m where n: "n = Suc m" and m: "length ?J < m"
        by (cases n) (auto simp: newline_indent_def)
      have "\<exists>c cs. ?item (hd kvs) = c # cs \<and> \<not> json_ws c \<and> c \<noteq> 125"
        by (simp add: encode_str_def json_ws_def)
      then obtain c cs where J: "?J = c # cs" and c: "\<not> json_ws c" "c \<noteq> 125"
        using join_first [OF False, of ?item "\<lambda>c. \<not> json_ws c \<and> c \<noteq> 125"
            "44 # newline_indent (Suc l)"]
        by metis
      have "skip_ws (newline_indent (Suc l) @ ?J @ ?tail) = ?J @ ?tail"
        using J c by (simp add: skip_ws_indent skip_ws_first)
      moreover have "take 1 (?J @ ?tail) \<noteq> [125]" using J c by simp
      moreover have "parse_object m (?J @ ?tail) = Some (kvs, rest)"
      proof (intro object_members)
        show "kvs \<noteq> []" by (rule False)
        show "\<And>kv. kv \<in> set kvs \<Longrightarrow> reads_back (snd kv)"
          using JObj snds.intros by blast
        show "length ?J < m" by (rule m)
      qed
      ultimately show ?thesis using False by (simp add: n)
    qed
  qed
qed

lemma json_loads_dumps: "json_loads (dumps 0 v) = Some v"
proof -
  have "parse_value (Suc (length (dumps 0 v))) (dumps 0 v @ []) = Some (v, [])"
    using all_read_back [of v] unfolding reads_back_def
    by (metis after_number_def le_SucI order_refl)
  moreover have "skip_ws (dumps 0 v) = dumps 0 v"
    using skip_ws_dumps [of 0 v "[]"] by simp
  ultimately show ?thesis by (simp add: json_loads_def skip_ws_def)
qed

section \<open>The JSON export read back\<close>

lemma read_displayable_to_dict: "read_displayable (to_dict p) = Some (displayable p)"
  by (simp add: read_displayable_def to_dict_def displayable_def ascii_def)

lemma member_profiles:
  "member (json_document now ps) (ascii ''profiles'') = Some (JArr (map to_dict ps))"
  by (simp add: json_document_def ascii_def)

text \<open>
  C6. For every collection of profiles, if the write of the JSON export goes through,
  the export returns \<open>True\<close>, and reading the written file back gives a document whose
  \<open>profiles\<close> member is an array of as many objects as there were profiles, in the same
  order, whose six displayable fields (ssid, authentication, encryption, key, key_type,
  profile_type) are those of the profiles.
\<close>

theorem json_export_round_trip:
  assumes "disk (files w) fn (dumps 0 (json_document now (profiles_arg self w arg))) = Written"
  shows "fst (export_to_json disk now self w fn arg) = Inr True \<and>
         (\<exists>text doc objs.
            files (snd (export_to_json disk now self w fn arg)) fn = Some text \<and>
            json_loads text = Some doc \<and>
            member doc (ascii ''profiles'') = Some (JArr objs) \<and>
            length objs = length (profiles_arg self w arg) \<and>
            map read_displayable objs
              = map (\<lambda>p. Some (displayable p)) (profiles_arg self w arg))"
proof -
  let ?ps = "profiles_arg self w arg"
  let ?doc = "json_document now ?ps"
  have e: "export_to_json disk now self w fn arg
             = (Inr True, w\<lparr>files := (files w)(fn \<mapsto> dumps 0 ?doc)\<rparr>)"
    using assms by (simp add: export_to_json_def try_export_def write_file_def Let_def)
  have 1: "files (snd (export_to_json disk now self w fn arg)) fn = Some (dumps 0 ?doc)"
    by (simp add: e)
  have 2: "json_loads (dumps 0 ?doc) = Some ?doc" by (rule json_loads_dumps)
  have 3: "member ?doc (ascii ''profiles'') = Some (JArr (map to_dict ?ps))"
    by (rule member_profiles)
  have 4: "length (map to_dict ?ps) = length ?ps" by simp
  have 5: "map read_displayable (map to_dict ?ps) = map (\<lambda>p. Some (displayable p)) ?ps"
    by (simp add: read_displayable_to_dict)
  from e have "fst (export_to_json disk now self w fn arg) = Inr True" by simp
  with 1 2 3 4 5 show ?thesis by blast
qed

text \<open>The theorem at the three sample profiles, on a disk that accepts the write.\<close>

theorem json_export_round_trip_witness:
  "good_disk (files sample_world) (ascii ''out.json'')
     (dumps 0 (json_document (ascii ''2024-01-01T00:00:00'')
        (profiles_arg sample_self sample_world None))) = Written \<and>
   profiles_arg sample_self sample_world None = sample_profiles \<and>
   fst (export_to_json good_disk (ascii ''2024-01-01T00:00:00'') sample_self sample_world
          (ascii ''out.json'') None) = Inr True \<and>
   (\<exists>text doc objs.
      files (snd (export_to_json good_disk (ascii ''2024-01-01T00:00:00'') sample_self
                    sample_world (ascii ''out.json'') None)) (ascii ''out.json'') = Some text \<and>
      json_loads text = Some doc \<and>
      member doc (ascii ''profiles'') = Some (JArr objs) \<and>
      length objs = 3 \<and>
      map read_displayable objs = map (\<lambda>p. Some (displayable p)) sample_profiles)"
proof -
  have h: "good_disk (files sample_world) (ascii ''out.json'')
     (dumps 0 (json_document (ascii ''2024-01-01T00:00:00'')
        (profiles_arg sample_self sample_world None))) = Written"
    by (simp add: good_disk_def)
  have p: "profiles_arg sample_self sample_world None = sample_profiles"
    by (simp add: profiles_arg_def sample_self_def sample_world_def)
  have n: "length sample_profiles = 3" by (simp add: sample_profiles_def)
  from json_export_round_trip [where disk = good_disk and w = sample_world
      and fn = "ascii ''out.json''" and now = "ascii ''2024-01-01T00:00:00''"
      and self = sample_self and arg = None] h p n
  show ?thesis by simp
qed

end
